theory Spec2Isabelle
  imports Complex_Main "HOL-Library.Word" "HOL-Library.Multiset"
begin

unbundle bit_operations_syntax

section \<open>JavaScript numbers used by the engine\<close>

text \<open>
  The engine (\<^verbatim>\<open>src/lib/game.ts\<close>) computes with JavaScript numbers, which are IEEE
  doubles. Every number it handles is a non-negative integer or a quotient of two small
  integers, so the double arithmetic is modelled exactly on integers: a double keeps 53
  significant bits, and the result of an operation is the exact result rounded to the
  nearest such value, ties to the even mantissa. The bitwise operators work on the value
  modulo \<open>2 ^ 32\<close>, which is a \<open>32 word\<close>.
\<close>

text \<open>Number of significant bits of a natural number.\<close>

fun bits :: "nat \<Rightarrow> nat" where
  "bits n = (if n = 0 then 0 else Suc (bits (n div 2)))"

declare bits.simps [simp del]

text \<open>\<open>a / b\<close> rounded to the nearest integer, a tie going to the even one.\<close>

definition rne_div :: "nat \<Rightarrow> nat \<Rightarrow> nat" where
  "rne_div a b =
     (let q = a div b; r = a mod b
      in if 2 * r < b then q
         else if b < 2 * r then q + 1
         else if even q then q else q + 1)"

text \<open>The double nearest to the natural number \<open>n\<close> (itself a natural number).\<close>

definition round53 :: "nat \<Rightarrow> nat" where
  "round53 n = (let s = bits n - 53 in rne_div n (2 ^ s) * 2 ^ s)"

text \<open>
  A positive double that is not an integer is kept as \<open>(m, e)\<close>, standing for
  \<open>m / 2 ^ e\<close>. \<open>dbl_div a b\<close> is the double the division \<open>a / b\<close> returns for
  positive integers \<open>a < b\<close>, \<open>dbl_mul\<close> multiplies a double by a natural number,
  \<open>Math_floor\<close> is \<^verbatim>\<open>Math.floor\<close>.
\<close>

type_synonym dbl = "nat \<times> nat"

definition dbl_div :: "nat \<Rightarrow> nat \<Rightarrow> dbl" where
  "dbl_div a b =
     (let e0 = 53 + bits b - bits a;
          e = (if 2 ^ 53 \<le> a * 2 ^ e0 div b then e0 - 1 else e0)
      in (rne_div (a * 2 ^ e) b, e))"

definition dbl_mul :: "dbl \<Rightarrow> nat \<Rightarrow> dbl" where
  "dbl_mul x k = (round53 (fst x * k), snd x)"

definition Math_floor :: "dbl \<Rightarrow> nat" where
  "Math_floor x = fst x div 2 ^ snd x"

section \<open>Cards and the deck\<close>

text \<open>
  A JavaScript string whose characters are read as numbers (the seed, through
  \<^verbatim>\<open>charCodeAt\<close>) is the list of its UTF-16 code units. Card codes and identifiers
  are only compared, sliced and concatenated and are kept as \<open>string\<close>.
\<close>

type_synonym jsstring = "16 word list"

definition utf16 :: "string \<Rightarrow> jsstring" where
  "utf16 s = map (\<lambda>c. of_char c) s"

type_synonym CardCode = string

definition SUITS :: "string list" where
  "SUITS = [''S'', ''H'', ''D'', ''C'']"

definition RANKS :: "string list" where
  "RANKS = [''A'', ''2'', ''3'', ''4'', ''5'', ''6''] @
           [''7'', ''8'', ''9'', ''10'', ''J'', ''Q'', ''K'']"

definition buildDeck :: "CardCode list" where
  "buildDeck = concat (map (\<lambda>r. map (\<lambda>s. r @ s) SUITS) RANKS)"

text \<open>\<^verbatim>\<open>code.slice(-1)\<close> and \<^verbatim>\<open>code.slice(0, -1)\<close>.\<close>

definition slice_suit :: "string \<Rightarrow> string" where
  "slice_suit code = drop (length code - 1) code"

definition slice_rank :: "string \<Rightarrow> string" where
  "slice_rank code = take (length code - 1) code"

definition isCardCode :: "string \<Rightarrow> bool" where
  "isCardCode code =
     (let suit = slice_suit code; rank = slice_rank code
      in suit \<in> set SUITS \<and> rank \<in> set RANKS)"

section \<open>Seeded generator and shuffle\<close>

text \<open>
  \<^verbatim>\<open>fnv1a32\<close>: \<^verbatim>\<open>h ^= str.charCodeAt(i)\<close> is a 32-bit exclusive or;
  \<^verbatim>\<open>h = (h >>> 0) * 0x01000193\<close> is a multiplication of doubles, whose exact product
  can need more than 53 bits and is then rounded. The loop variable is the number held by
  \<^verbatim>\<open>h\<close> after each round.
\<close>

fun fnv1a32_loop :: "nat \<Rightarrow> jsstring \<Rightarrow> nat" where
  "fnv1a32_loop h [] = h"
| "fnv1a32_loop h (c # cs) =
     (let h1 = (word_of_nat h :: 32 word) XOR ucast c;
          h2 = round53 (unat h1 * 0x01000193)
      in fnv1a32_loop h2 cs)"

definition fnv1a32 :: "jsstring \<Rightarrow> nat" where
  "fnv1a32 str = unat (word_of_nat (fnv1a32_loop 0x811c9dc5 str) :: 32 word)"

text \<open>
  The reference FNV-1a hash on 32 bits, as the specification words it: from the offset
  basis, for each character exclusive-or the code in, then multiply by the prime, every
  step wrapped to 32 bits.
\<close>

definition fnv1a32_reference :: "jsstring \<Rightarrow> 32 word" where
  "fnv1a32_reference str = foldl (\<lambda>h c. (h XOR ucast c) * 0x01000193) 0x811c9dc5 str"

text \<open>
  \<^verbatim>\<open>mulberry32\<close> returns a closure over the counter \<^verbatim>\<open>t\<close>; the model passes the
  counter explicitly. One call adds the increment (a double addition), mixes the low 32
  bits and returns \<open>u / 2 ^ 32\<close> for a 32-bit \<open>u\<close>, which a double holds exactly: the
  model returns \<open>u\<close> and the new counter.
\<close>

definition mulberry32 :: "nat \<Rightarrow> nat" where
  "mulberry32 seed = unat (word_of_nat seed :: 32 word)"

definition rng :: "nat \<Rightarrow> 32 word \<times> nat" where
  "rng t0 =
     (let t = round53 (t0 + 0x6d2b79f5);
          tw = (word_of_nat t :: 32 word);
          r = (tw XOR drop_bit 15 tw) * (1 OR tw);
          r = r XOR (r + (r XOR drop_bit 7 r) * (61 OR r))
      in (r XOR drop_bit 14 r, t))"

text \<open>The nonce is a JavaScript number holding an integer; \<^verbatim>\<open>nonce >>> 0\<close> wraps it.\<close>

definition createSeededRng :: "jsstring \<Rightarrow> int \<Rightarrow> nat" where
  "createSeededRng seed nonce =
     (let base = fnv1a32 seed;
          mixed = unat ((word_of_nat base :: 32 word) XOR word_of_int nonce)
      in mulberry32 mixed)"

text \<open>
  \<^verbatim>\<open>[arr[i], arr[j]] = [arr[j], arr[i]]\<close> for indices inside the array, which is where
  the shuffle's indices are (lemma \<open>shuffle_index\<close> below).
\<close>

definition swap :: "'a list \<Rightarrow> nat \<Rightarrow> nat \<Rightarrow> 'a list" where
  "swap arr i j = arr[i := arr ! j, j := arr ! i]"

text \<open>
  \<^verbatim>\<open>Math.floor(rng() * (i + 1))\<close>: the product of \<open>u / 2 ^ 32\<close> and \<open>i + 1\<close> is the
  double nearest to \<open>u * (i + 1) / 2 ^ 32\<close>.
\<close>

definition shuffle_index :: "32 word \<Rightarrow> nat \<Rightarrow> nat" where
  "shuffle_index u i = round53 (unat u * (i + 1)) div 2 ^ 32"

text \<open>The loop of \<^verbatim>\<open>shuffleInPlace\<close>, from index \<open>i\<close> down to 1.\<close>

fun shuffle_loop :: "nat \<Rightarrow> 'a list \<Rightarrow> nat \<Rightarrow> 'a list" where
  "shuffle_loop 0 arr t = arr"
| "shuffle_loop (Suc k) arr t =
     (let i = Suc k;
          (u, t') = rng t;
          j = shuffle_index u i
      in shuffle_loop k (swap arr i j) t')"

definition shuffleInPlace :: "'a list \<Rightarrow> nat \<Rightarrow> 'a list" where
  "shuffleInPlace arr t = shuffle_loop (length arr - 1) arr t"

definition createShuffledDeck :: "jsstring \<Rightarrow> int \<Rightarrow> CardCode list" where
  "createShuffledDeck seed nonce =
     (let t = createSeededRng seed nonce;
          copy = buildDeck
      in shuffleInPlace copy t)"

section \<open>Scoring\<close>

text \<open>
  \<^verbatim>\<open>Number(rank)\<close> is reached for the numeral ranks \<^verbatim>\<open>"2"\<close> to \<^verbatim>\<open>"10"\<close> only
  (the parameter has type \<^verbatim>\<open>Rank\<close>); on any other string the model gives \<open>None\<close>,
  meaning that the string is outside the function's type.
\<close>

definition Number :: "string \<Rightarrow> int option" where
  "Number s = map_of [(''2'', 2), (''3'', 3), (''4'', 4), (''5'', 5), (''6'', 6),
                      (''7'', 7), (''8'', 8), (''9'', 9), (''10'', 10)] s"

definition rankBaseValue :: "string \<Rightarrow> int option" where
  "rankBaseValue rank =
     (if rank = ''A'' then Some 1
      else if rank = ''J'' \<or> rank = ''Q'' \<or> rank = ''K'' then Some 10
      else Number rank)"

text \<open>The \<^verbatim>\<open>for\<close> loop of \<^verbatim>\<open>calculateBestTotal\<close> over the cards; \<open>sm\<close> is the variable \<^verbatim>\<open>sum\<close>.\<close>

fun sum_loop :: "CardCode list \<Rightarrow> int \<Rightarrow> nat \<Rightarrow> (int \<times> nat) option" where
  "sum_loop [] sm aces = Some (sm, aces)"
| "sum_loop (code # cards) sm aces =
     (let rank = slice_rank code
      in if rank = ''A'' then sum_loop cards (sm + 1) (aces + 1)
         else (case rankBaseValue rank of
                 None \<Rightarrow> None
               | Some v \<Rightarrow> sum_loop cards (sm + v) aces))"

text \<open>The \<^verbatim>\<open>while\<close> loop that counts aces as 11.\<close>

function upgrade_loop :: "int \<Rightarrow> nat \<Rightarrow> bool \<Rightarrow> int \<times> bool" where
  "upgrade_loop sm aces soft =
     (if aces > 0 \<and> sm + 10 \<le> 21 then upgrade_loop (sm + 10) (aces - 1) True
      else (sm, soft))"
  by pat_completeness auto
termination
  by (relation "measure (\<lambda>(sm, aces, soft). aces)") auto

declare upgrade_loop.simps [simp del]

text \<open>The result \<^verbatim>\<open>{ total, soft }\<close> is the pair \<open>(total, soft)\<close>.\<close>

definition calculateBestTotal :: "CardCode list \<Rightarrow> (int \<times> bool) option" where
  "calculateBestTotal cards =
     (case sum_loop cards 0 0 of
        None \<Rightarrow> None
      | Some (sm, aces) \<Rightarrow> Some (upgrade_loop sm aces False))"

text \<open>
  \<^verbatim>\<open>Math.floor((total / 21) * 100)\<close> is computed on doubles: the division rounds,
  the multiplication rounds again.
\<close>

definition calculatePoints :: "int \<Rightarrow> int" where
  "calculatePoints tot =
     (if tot > 21 then 0
      else if tot = 21 then 100
      else if tot > 0 then int (Math_floor (dbl_mul (dbl_div (nat tot) 21) 100))
      else 0)"

definition isBust :: "int \<Rightarrow> bool" where
  "isBust tot = (tot > 21)"

definition updateBalance :: "int \<Rightarrow> int \<Rightarrow> int" where
  "updateBalance balance points = (if points > 0 then balance + points else balance)"

text \<open>
  The totals a hand can be given by counting each ace as 1 or as 11, as the
  specification words the choice; \<open>calculateBestTotal\<close> is compared with them.
\<close>

fun ace_totals :: "CardCode list \<Rightarrow> int list" where
  "ace_totals [] = [0]"
| "ace_totals (code # cards) =
     (if slice_rank code = ''A''
      then map (\<lambda>t. 1 + t) (ace_totals cards) @ map (\<lambda>t. 11 + t) (ace_totals cards)
      else map (\<lambda>t. the (rankBaseValue (slice_rank code)) + t) (ace_totals cards))"

section \<open>Rounds, wallets and the audit log\<close>

datatype RoundState = Idle | Playing | Bust | Finished

datatype PrismaRoundState = IDLE | PLAYING | BUST | FINISHED

fun toPrismaRoundState :: "RoundState \<Rightarrow> PrismaRoundState" where
  "toPrismaRoundState Idle = IDLE"
| "toPrismaRoundState Playing = PLAYING"
| "toPrismaRoundState Bust = BUST"
| "toPrismaRoundState Finished = FINISHED"

fun fromPrismaRoundState :: "PrismaRoundState \<Rightarrow> RoundState" where
  "fromPrismaRoundState IDLE = Idle"
| "fromPrismaRoundState PLAYING = Playing"
| "fromPrismaRoundState BUST = Bust"
| "fromPrismaRoundState FINISHED = Finished"

text \<open>
  The tables \<^verbatim>\<open>game_round\<close>, \<^verbatim>\<open>game_wallet\<close> and \<^verbatim>\<open>round_log\<close>. A round is
  stored under its primary key \<^verbatim>\<open>id\<close> and a wallet under its unique \<^verbatim>\<open>userId\<close>, so
  these two columns are the keys of the maps and not fields of the rows. Dates are
  numbers; the integer columns are taken unbounded.
\<close>

type_synonym date = nat

record GameRound =
  r_userId :: string
  r_state :: PrismaRoundState
  r_seed :: jsstring
  r_nonce :: int
  r_hand :: "string list"
  r_total :: int
  r_points :: int
  r_finishedAt :: "date option"
  r_createdAt :: date
  r_updatedAt :: date
  r_gameWalletId :: "string option"

record GameWallet =
  w_id :: string
  w_balance :: int
  w_createdAt :: date
  w_updatedAt :: date

record RoundLog =
  l_id :: string
  l_roundId :: string
  l_action :: string
  l_card :: "CardCode option"
  l_nonce :: "int option"
  l_totalAfter :: "int option"
  l_createdAt :: date

record db =
  gameRound :: "string \<rightharpoonup> GameRound"
  gameWallet :: "string \<rightharpoonup> GameWallet"
  roundLog :: "RoundLog list"

text \<open>The snapshot of a round sent to the client (\<^verbatim>\<open>GameState\<close>).\<close>

record GameState =
  g_roundId :: string
  g_state :: RoundState
  g_seed :: jsstring
  g_nonce :: int
  g_hand :: "CardCode list"
  g_total :: int
  g_pointsLastRound :: int
  g_balance :: int

text \<open>What the engine and the handlers throw.\<close>

datatype exn =
    InvalidCardCode string | EmptyDeck | NullRecord | RecordNotFound | UniqueConstraintFailed

definition assertCardCodes :: "string list \<Rightarrow> exn + CardCode list" where
  "assertCardCodes arr =
     (case find (\<lambda>c. \<not> isCardCode c) arr of
        Some c \<Rightarrow> Inl (InvalidCardCode c)
      | None \<Rightarrow> Inr arr)"

definition toApiState :: "string \<Rightarrow> GameRound \<Rightarrow> int \<Rightarrow> exn + GameState" where
  "toApiState rid rnd balance =
     (let uiState = fromPrismaRoundState (r_state rnd)
      in case assertCardCodes (r_hand rnd) of
           Inl e \<Rightarrow> Inl e
         | Inr cards \<Rightarrow>
             Inr \<lparr> g_roundId = rid, g_state = uiState, g_seed = r_seed rnd,
                   g_nonce = r_nonce rnd, g_hand = cards, g_total = r_total rnd,
                   g_pointsLastRound =
                     (if uiState = Finished \<or> uiState = Bust then r_points rnd else 0),
                   g_balance = balance \<rparr>)"

text \<open>
  A response is its status and its JSON body. An exception that reaches the handler's
  \<^verbatim>\<open>catch\<close> becomes the answer 500.
\<close>

datatype body =
    State GameState
  | Error string
  | ErrorDetails string string
  | ErrorCurrent string GameState

type_synonym response = "nat \<times> body"

definition internalError :: response where
  "internalError = (500, Error ''Internal Server Error'')"

definition respond :: "nat \<Rightarrow> (GameState \<Rightarrow> body) \<Rightarrow> exn + GameState \<Rightarrow> response" where
  "respond status wrap r =
     (case r of Inl e \<Rightarrow> internalError | Inr st \<Rightarrow> (status, wrap st))"

text \<open>
  A request: the user of the session, if any, and the parsed body, \<open>None\<close> when
  \<^verbatim>\<open>req.json()\<close> throws. \<open>b_roundId\<close> is \<open>None\<close> when the field is missing or not
  a string; \<open>b_expectedNonce\<close> is \<open>None\<close> when the field is not a number. The
  environment gives the values of \<^verbatim>\<open>new Date()\<close> and \<^verbatim>\<open>randomUUID()\<close>.
\<close>

record StandBody =
  b_roundId :: "string option"

record HitBody = StandBody +
  b_expectedNonce :: "int option"

record 'b Request =
  session :: "string option"
  json :: "'b option"

record Env =
  e_now :: date
  e_uuid :: string
  e_walletNow :: date
  e_walletUuid :: string

text \<open>\<^verbatim>\<open>prisma.gameRound.findFirst({ where: { id, userId } })\<close>\<close>

definition findRound :: "db \<Rightarrow> string \<Rightarrow> string \<Rightarrow> GameRound option" where
  "findRound s rid userId =
     (case gameRound s rid of
        None \<Rightarrow> None
      | Some r \<Rightarrow> if r_userId r = userId then Some r else None)"

text \<open>\<^verbatim>\<open>wallet?.balance ?? 0\<close>\<close>

definition balanceOr0 :: "db \<Rightarrow> string \<Rightarrow> int" where
  "balanceOr0 s userId = (case gameWallet s userId of None \<Rightarrow> 0 | Some w \<Rightarrow> w_balance w)"

section \<open>The hit handler\<close>

text \<open>
  \<^verbatim>\<open>baseDeck[i]\<close> is \<^verbatim>\<open>undefined\<close> (\<open>None\<close>) outside the array,
  \<^verbatim>\<open>already.has(x)\<close> is false for \<^verbatim>\<open>undefined\<close>, and \<^verbatim>\<open>!nextCard\<close> holds for
  \<^verbatim>\<open>undefined\<close> and for the empty string.
\<close>

definition at_index :: "'a list \<Rightarrow> int \<Rightarrow> 'a option" where
  "at_index xs i = (if 0 \<le> i \<and> i < int (length xs) then Some (xs ! nat i) else None)"

definition has :: "string list \<Rightarrow> string option \<Rightarrow> bool" where
  "has already c = (case c of None \<Rightarrow> False | Some x \<Rightarrow> x \<in> set already)"

definition falsy :: "string option \<Rightarrow> bool" where
  "falsy c = (c = None \<or> c = Some [])"

text \<open>
  The two \<^verbatim>\<open>for\<close> loops that look for an unused card from index \<open>i\<close> on: the
  result is \<open>Some (nextCard, nextIndex)\<close> at the \<^verbatim>\<open>break\<close>, \<open>None\<close> when the loop
  ends without one.
\<close>

function scan :: "CardCode list \<Rightarrow> string list \<Rightarrow> int \<Rightarrow> (CardCode option \<times> int) option" where
  "scan baseDeck already i =
     (if i < int (length baseDeck)
      then (if \<not> has already (at_index baseDeck i) then Some (at_index baseDeck i, i)
            else scan baseDeck already (i + 1))
      else None)"
  by pat_completeness auto
termination
  by (relation "measure (\<lambda>(baseDeck, already, i). nat (int (length baseDeck) - i))") auto

declare scan.simps [simp del]

text \<open>Lines 142 to 169 of the handler: the card to deal and its index.\<close>

definition nextAvailable :: "CardCode list \<Rightarrow> string list \<Rightarrow> int \<Rightarrow> CardCode option \<times> int" where
  "nextAvailable baseDeck already drawsSoFar =
     (let nextIndex = drawsSoFar;
          nextCard = at_index baseDeck nextIndex
      in if falsy nextCard \<or> has already nextCard
         then (let (nextCard, nextIndex) =
                     (case scan baseDeck already nextIndex of
                        Some found \<Rightarrow> found
                      | None \<Rightarrow> (None, nextIndex))
               in if falsy nextCard
                  then (case scan baseDeck already 0 of
                          Some found \<Rightarrow> found
                        | None \<Rightarrow> (nextCard, nextIndex))
                  else (nextCard, nextIndex))
         else (nextCard, nextIndex))"

text \<open>
  The \<^verbatim>\<open>data\<close> of \<^verbatim>\<open>prisma.gameRound.update\<close> (lines 188 to 201), applied to
  the round that was read, and the row of \<^verbatim>\<open>prisma.roundLog.create\<close>.
\<close>

definition hit_update :: "date \<Rightarrow> GameRound \<Rightarrow> CardCode list \<Rightarrow> int \<Rightarrow> GameRound" where
  "hit_update now rnd newHand tot =
     (let didBust = isBust tot;
          nextNonce = r_nonce rnd + 1
      in rnd \<lparr> r_hand := newHand, r_total := tot, r_nonce := nextNonce,
               r_state := (if didBust then toPrismaRoundState Bust
                           else toPrismaRoundState Playing),
               r_points := (if didBust then 0 else r_points rnd),
               r_finishedAt := (if didBust then Some now else None),
               r_updatedAt := now \<rparr>)"

definition hit_log :: "Env \<Rightarrow> string \<Rightarrow> GameRound \<Rightarrow> CardCode option \<Rightarrow> int \<Rightarrow> RoundLog" where
  "hit_log env rid rnd nextCard tot =
     (let didBust = isBust tot;
          nextNonce = r_nonce rnd + 1
      in \<lparr> l_id = ''log_'' @ e_uuid env, l_roundId = rid,
            l_action = (if didBust then ''bust'' else ''hit''),
            l_card = nextCard, l_nonce = Some nextNonce,
            l_totalAfter = Some tot, l_createdAt = e_now env \<rparr>)"

text \<open>
  The handler from the deck reconstruction on (lines 137 to 233). The result is \<open>None\<close>
  when \<^verbatim>\<open>calculateBestTotal\<close> is given a hand that is not a \<^verbatim>\<open>CardCode[]\<close>.
  The round is updated and the log row written before the answer is built, outside any
  transaction.
\<close>

definition hit_apply :: "Env \<Rightarrow> string \<Rightarrow> string \<Rightarrow> GameRound \<Rightarrow> db \<Rightarrow> (response \<times> db) option" where
  "hit_apply env userId rid rnd s =
     (let baseDeck = createShuffledDeck (r_seed rnd) 0;
          drawsSoFar = r_nonce rnd;
          (nextCard, nextIndex) = nextAvailable baseDeck (r_hand rnd) drawsSoFar
      in if falsy nextCard
         then Some ((410, Error ''Deck exhausted. Start a new round.''), s)
         else
           (let newHand = r_hand rnd @ [the nextCard]
            in case calculateBestTotal newHand of
                 None \<Rightarrow> None
               | Some (tot, soft) \<Rightarrow>
                   (let updated = hit_update (e_now env) rnd newHand tot;
                        s1 = s \<lparr> gameRound := (gameRound s)(rid \<mapsto> updated) \<rparr>;
                        s2 = s1 \<lparr> roundLog := roundLog s1 @ [hit_log env rid rnd nextCard tot] \<rparr>
                    in Some (respond 200 State (toApiState rid updated (balanceOr0 s2 userId)),
                             s2))))"

definition hit_POST :: "Env \<Rightarrow> HitBody Request \<Rightarrow> db \<Rightarrow> (response \<times> db) option" where
  "hit_POST env req s =
     (case session req of
        None \<Rightarrow> Some ((401, Error ''Unauthorized''), s)
      | Some userId \<Rightarrow>
     (case json req of
        None \<Rightarrow> Some ((400, ErrorDetails ''Invalid JSON body'' ''Expected roundId''), s)
      | Some body \<Rightarrow>
     (case b_roundId body of
        None \<Rightarrow> Some ((400, Error ''roundId is required''), s)
      | Some rid \<Rightarrow>
          if rid = [] then Some ((400, Error ''roundId is required''), s)
          else
     (case findRound s rid userId of
        None \<Rightarrow> Some ((404, Error ''Round not found''), s)
      | Some rnd \<Rightarrow>
          if r_state rnd \<noteq> PLAYING
          then Some (respond 409 State (toApiState rid rnd (balanceOr0 s userId)), s)
          else if (case b_expectedNonce body of
                     None \<Rightarrow> False
                   | Some expected \<Rightarrow> expected \<noteq> r_nonce rnd)
          then Some (respond 409 (ErrorCurrent ''Round changed since client last sync'')
                       (toApiState rid rnd (balanceOr0 s userId)), s)
          else hit_apply env userId rid rnd s))))"

section \<open>The stand handler\<close>

text \<open>
  \<^verbatim>\<open>Ensure user wallet exists\<close> (lines 96 to 111): the wallet row is created, with
  balance 0, when the user has none.
\<close>

definition newWallet :: "Env \<Rightarrow> GameWallet" where
  "newWallet env =
     (let now = e_walletNow env
      in \<lparr> w_id = ''wal_'' @ e_walletUuid env, w_balance = 0,
            w_createdAt = now, w_updatedAt = now \<rparr>)"

definition ensureWallet :: "Env \<Rightarrow> string \<Rightarrow> db \<Rightarrow> GameWallet \<times> db" where
  "ensureWallet env userId s =
     (case gameWallet s userId of
        Some w \<Rightarrow> (w, s)
      | None \<Rightarrow>
          (let w = newWallet env
           in (w, s \<lparr> gameWallet := (gameWallet s)(userId \<mapsto> w) \<rparr>)))"

text \<open>
  \<^verbatim>\<open>prisma.gameWallet.create\<close> (lines 102 to 110) on its own, as one storage
  operation. The table has a unique index on \<^verbatim>\<open>userId\<close>
  (\<^verbatim>\<open>game_wallet_userId_key\<close>): the insert throws when the user has a wallet row by
  then, and the store is left as it was. \<open>ensureWallet\<close> is the lookup followed at once
  by the insert, where the insert cannot fail.
\<close>

definition createWallet :: "Env \<Rightarrow> string \<Rightarrow> db \<Rightarrow> (exn + GameWallet) \<times> db" where
  "createWallet env userId s =
     (case gameWallet s userId of
        Some w \<Rightarrow> (Inl UniqueConstraintFailed, s)
      | None \<Rightarrow>
          (let w = newWallet env
           in (Inr w, s \<lparr> gameWallet := (gameWallet s)(userId \<mapsto> w) \<rparr>)))"

text \<open>What the handler holds when it opens the transaction.\<close>

record Standing =
  st_userId :: string
  st_rid :: string
  st_round :: GameRound
  st_wallet :: GameWallet
  st_total :: int
  st_points :: int

text \<open>
  Lines 61 to 94: the session, the body and the round of the request. The result is an
  answer, or the user, the round identifier and the round as it was read.
\<close>

definition stand_load ::
  "StandBody Request \<Rightarrow> db \<Rightarrow> response + string \<times> string \<times> GameRound" where
  "stand_load req s =
     (case session req of
        None \<Rightarrow> Inl (401, Error ''Unauthorized'')
      | Some userId \<Rightarrow>
     (case json req of
        None \<Rightarrow> Inl (400, ErrorDetails ''Invalid JSON body'' ''Expected roundId'')
      | Some body \<Rightarrow>
     (case b_roundId body of
        None \<Rightarrow> Inl (400, Error ''roundId is required'')
      | Some rid \<Rightarrow>
          if rid = [] then Inl (400, Error ''roundId is required'')
          else
     (case findRound s rid userId of
        None \<Rightarrow> Inl (404, Error ''Round not found'')
      | Some rnd \<Rightarrow> Inr (userId, rid, rnd)))))"

text \<open>
  Lines 113 to 127: the state check on the round that was read, and the points, once
  the handler holds a wallet. No storage operation happens here. The result is an answer,
  or the values the transaction needs; \<open>None\<close> as for \<open>hit_apply\<close>.
\<close>

definition stand_decide ::
  "string \<times> string \<times> GameRound \<Rightarrow> GameWallet \<Rightarrow> (response + Standing) option" where
  "stand_decide loaded wallet =
     (let (userId, rid, rnd) = loaded
      in if r_state rnd \<noteq> PLAYING
         then Some (Inl (respond 409 State (toApiState rid rnd (w_balance wallet))))
         else (case assertCardCodes (r_hand rnd) of
                 Inl e \<Rightarrow> Some (Inl internalError)
               | Inr cards \<Rightarrow>
                   (case calculateBestTotal cards of
                      None \<Rightarrow> None
                    | Some (tot, soft) \<Rightarrow>
                        Some (Inr \<lparr> st_userId = userId, st_rid = rid, st_round = rnd,
                                    st_wallet = wallet, st_total = tot,
                                    st_points = calculatePoints tot \<rparr>))))"

text \<open>Lines 96 to 127: the wallet, then the state check and the points.\<close>

definition stand_check ::
  "Env \<Rightarrow> string \<times> string \<times> GameRound \<Rightarrow> db \<Rightarrow> ((response + Standing) \<times> db) option" where
  "stand_check env loaded s =
     (let (wallet, s1) = ensureWallet env (fst loaded) s
      in (case stand_decide loaded wallet of
            None \<Rightarrow> None
          | Some answer \<Rightarrow> Some (answer, s1)))"

text \<open>Everything before \<^verbatim>\<open>prisma.$transaction\<close>.\<close>

definition stand_prepare ::
  "Env \<Rightarrow> StandBody Request \<Rightarrow> db \<Rightarrow> ((response + Standing) \<times> db) option" where
  "stand_prepare env req s =
     (case stand_load req s of
        Inl resp \<Rightarrow> Some (Inl resp, s)
      | Inr loaded \<Rightarrow> stand_check env loaded s)"

text \<open>
  The \<^verbatim>\<open>data\<close> of \<^verbatim>\<open>tx.gameRound.updateMany\<close> (lines 134 to 140) applied to a
  round, and the row of \<^verbatim>\<open>tx.roundLog.create\<close>.
\<close>

definition stand_update :: "date \<Rightarrow> GameRound \<Rightarrow> int \<Rightarrow> int \<Rightarrow> GameRound" where
  "stand_update now rnd tot points =
     rnd \<lparr> r_state := toPrismaRoundState Finished, r_total := tot, r_points := points,
           r_finishedAt := Some now, r_updatedAt := now \<rparr>"

definition stand_log :: "Env \<Rightarrow> Standing \<Rightarrow> RoundLog" where
  "stand_log env l =
     \<lparr> l_id = ''log_'' @ e_uuid env, l_roundId = st_rid l, l_action = ''stand'',
       l_card = None, l_nonce = Some (r_nonce (st_round l)),
       l_totalAfter = Some (st_total l), l_createdAt = e_now env \<rparr>"

text \<open>
  The callback of \<^verbatim>\<open>prisma.$transaction\<close> (lines 130 to 190), run on the store as it
  is when the transaction commits. \<^verbatim>\<open>updateMany\<close> changes the round only if it is
  still \<^verbatim>\<open>PLAYING\<close>. An exception rolls the transaction back: the store is left as it
  was. The result is \<^verbatim>\<open>{ finalized, round, wallet }\<close>.
\<close>

definition stand_transaction ::
  "Env \<Rightarrow> Standing \<Rightarrow> db \<Rightarrow> (exn + bool \<times> GameRound \<times> GameWallet) \<times> db" where
  "stand_transaction env l s =
     (case gameRound s (st_rid l) of
        None \<Rightarrow> (Inl NullRecord, s)
      | Some cur \<Rightarrow>
          if r_userId cur = st_userId l \<and> r_state cur = PLAYING
          then
            (let now = e_now env;
                 finalizedRound = stand_update now cur (st_total l) (st_points l);
                 s1 = s \<lparr> gameRound := (gameRound s)(st_rid l \<mapsto> finalizedRound) \<rparr>;
                 s2 = s1 \<lparr> roundLog := roundLog s1 @ [stand_log env l] \<rparr>
             in if st_points l > 0
                then (case gameWallet s2 (st_userId l) of
                        None \<Rightarrow> (Inl RecordNotFound, s)
                      | Some w \<Rightarrow>
                          if w_id w = w_id (st_wallet l)
                          then (let updatedWallet = w
                                      \<lparr> w_balance := w_balance w + st_points l,
                                        w_updatedAt := now \<rparr>;
                                    s3 = s2 \<lparr> gameWallet :=
                                           (gameWallet s2)(st_userId l \<mapsto> updatedWallet) \<rparr>
                                in (Inr (True, finalizedRound, updatedWallet), s3))
                          else (Inl RecordNotFound, s))
                else (Inr (True, finalizedRound, st_wallet l), s2))
          else (Inr (False, cur,
                     (case gameWallet s (st_userId l) of
                        Some w \<Rightarrow> w
                      | None \<Rightarrow> st_wallet l)), s))"

text \<open>Lines 192 to 206: the answer, 200 for the call that finalized and 409 otherwise.\<close>

definition stand_respond :: "string \<Rightarrow> exn + bool \<times> GameRound \<times> GameWallet \<Rightarrow> response" where
  "stand_respond rid result =
     (case result of
        Inl e \<Rightarrow> internalError
      | Inr (finalized, rnd, wallet) \<Rightarrow>
          respond (if finalized then 200 else 409) State
            (toApiState rid rnd (w_balance wallet)))"

definition stand_POST :: "Env \<Rightarrow> StandBody Request \<Rightarrow> db \<Rightarrow> (response \<times> db) option" where
  "stand_POST env req s =
     (case stand_prepare env req s of
        None \<Rightarrow> None
      | Some (Inl resp, s1) \<Rightarrow> Some (resp, s1)
      | Some (Inr l, s1) \<Rightarrow>
          (let (result, s2) = stand_transaction env l s1
           in Some (stand_respond (st_rid l) result, s2)))"

section \<open>Starting a round\<close>

record RoundLogEntry =
  le_roundId :: string
  le_action :: string
  le_card :: "CardCode option"
  le_totalAfter :: "int option"
  le_nonce :: "int option"
  le_timestamp :: nat

record InitParams =
  p_seed :: jsstring
  p_nonce :: "int option"
  p_dealOne :: "bool option"

record InitRound =
  i_roundId :: string
  i_state :: RoundState
  i_seed :: jsstring
  i_nonce :: int
  i_hand :: "CardCode list"
  i_total :: int
  i_deckLeft :: "CardCode list"
  i_logs :: "RoundLogEntry list"

text \<open>\<^verbatim>\<open>drawCard\<close> throws on an empty deck.\<close>

definition drawCard :: "CardCode list \<Rightarrow> exn + CardCode \<times> CardCode list" where
  "drawCard deck = (case deck of [] \<Rightarrow> Inl EmptyDeck | crd # rest \<Rightarrow> Inr (crd, rest))"

text \<open>
  \<^verbatim>\<open>initRound\<close>, given the identifier \<^verbatim>\<open>generateRoundId()\<close> returns and the two
  values of \<^verbatim>\<open>Date.now()\<close>. The start handler (\<^verbatim>\<open>POST /api/game/start\<close>) calls it
  without a nonce and stores the seed, nonce, hand and total it returns.
\<close>

definition initRound :: "string \<Rightarrow> nat \<Rightarrow> nat \<Rightarrow> InitParams \<Rightarrow> (exn + InitRound) option" where
  "initRound roundId ts1 ts2 params =
     (let nonce = (case p_nonce params of None \<Rightarrow> 0 | Some n \<Rightarrow> n);
          deck = createShuffledDeck (p_seed params) nonce;
          logs = [\<lparr> le_roundId = roundId, le_action = ''start'', le_card = None,
                     le_totalAfter = None, le_nonce = Some nonce, le_timestamp = ts1 \<rparr>]
      in if p_dealOne params = Some True
         then (case drawCard deck of
                 Inl e \<Rightarrow> Some (Inl e)
               | Inr (crd, rest) \<Rightarrow>
                   (let hand = [crd]
                    in case calculateBestTotal hand of
                         None \<Rightarrow> None
                       | Some (tot, soft) \<Rightarrow>
                           Some (Inr \<lparr> i_roundId = roundId, i_state = Playing,
                                       i_seed = p_seed params, i_nonce = nonce + 1,
                                       i_hand = hand, i_total = tot, i_deckLeft = rest,
                                       i_logs = logs @
                                         [\<lparr> le_roundId = roundId, le_action = ''hit'',
                                            le_card = Some crd, le_totalAfter = Some tot,
                                            le_nonce = Some (nonce + 1),
                                            le_timestamp = ts2 \<rparr>] \<rparr>)))
         else (case calculateBestTotal [] of
                 None \<Rightarrow> None
               | Some (tot, soft) \<Rightarrow>
                   Some (Inr \<lparr> i_roundId = roundId, i_state = Playing,
                               i_seed = p_seed params, i_nonce = nonce, i_hand = [],
                               i_total = tot, i_deckLeft = deck, i_logs = logs \<rparr>)))"

section \<open>Two stand requests at the same time\<close>

text \<open>
  Requests that run at the same time are interleaved at their storage operations: every
  \<^verbatim>\<open>await\<close> on the store is a step of its own, and what the handler computes
  between two of them belongs to the step before. A stand request takes these steps:
  it reads the round (\<^verbatim>\<open>findFirst\<close>, line 85); it looks the wallet up
  (\<^verbatim>\<open>findUnique\<close>, line 97); if there is none, it inserts one
  (\<^verbatim>\<open>create\<close>, line 102), which throws when another request has inserted the
  user's wallet in between; it runs the transaction (line 130), which the storage
  executes as a unit, and answers. An exception is caught at line 207 and answered
  with 500. A request that has answered takes no further step.
\<close>

datatype call =
    Started
  | Loaded "string \<times> string \<times> GameRound"
  | NoWallet "string \<times> string \<times> GameRound"
  | Ready Standing
  | Answered response

text \<open>With the wallet in hand: lines 113 to 127, up to the transaction.\<close>

definition stand_continue :: "string \<times> string \<times> GameRound \<Rightarrow> GameWallet \<Rightarrow> call option" where
  "stand_continue loaded wallet =
     (case stand_decide loaded wallet of
        None \<Rightarrow> None
      | Some (Inl resp) \<Rightarrow> Some (Answered resp)
      | Some (Inr l) \<Rightarrow> Some (Ready l))"

definition stand_step :: "Env \<Rightarrow> StandBody Request \<Rightarrow> call \<Rightarrow> db \<Rightarrow> (call \<times> db) option" where
  "stand_step env req c s =
     (case c of
        Started \<Rightarrow>
          (case stand_load req s of
             Inl resp \<Rightarrow> Some (Answered resp, s)
           | Inr loaded \<Rightarrow> Some (Loaded loaded, s))
      | Loaded loaded \<Rightarrow>
          (case gameWallet s (fst loaded) of
             None \<Rightarrow> Some (NoWallet loaded, s)
           | Some wallet \<Rightarrow>
               (case stand_continue loaded wallet of
                  None \<Rightarrow> None
                | Some c' \<Rightarrow> Some (c', s)))
      | NoWallet loaded \<Rightarrow>
          (case createWallet env (fst loaded) s of
             (Inl e, s1) \<Rightarrow> Some (Answered internalError, s1)
           | (Inr wallet, s1) \<Rightarrow>
               (case stand_continue loaded wallet of
                  None \<Rightarrow> None
                | Some c' \<Rightarrow> Some (c', s1)))
      | Ready l \<Rightarrow>
          (let (result, s2) = stand_transaction env l s
           in Some (Answered (stand_respond (st_rid l) result), s2))
      | Answered resp \<Rightarrow> Some (Answered resp, s))"

text \<open>
  Two requests, each with its own environment, and a schedule that says which of the two
  takes the next step.
\<close>

datatype caller = First | Second

fun stand_race ::
  "Env \<times> StandBody Request \<Rightarrow> Env \<times> StandBody Request \<Rightarrow> caller list \<Rightarrow>
   call \<times> call \<times> db \<Rightarrow> (call \<times> call \<times> db) option" where
  "stand_race a b [] conf = Some conf"
| "stand_race a b (First # sched) (ca, cb, s) =
     (case stand_step (fst a) (snd a) ca s of
        None \<Rightarrow> None
      | Some (ca', s') \<Rightarrow> stand_race a b sched (ca', cb, s'))"
| "stand_race a b (Second # sched) (ca, cb, s) =
     (case stand_step (fst b) (snd b) cb s of
        None \<Rightarrow> None
      | Some (cb', s') \<Rightarrow> stand_race a b sched (ca, cb', s'))"

section \<open>An example store\<close>

text \<open>
  One user \<^verbatim>\<open>u1\<close> with one round \<^verbatim>\<open>r1\<close> on the seed \<^verbatim>\<open>"s1"\<close>, with or without a
  wallet row, an empty log, and requests of this user for this round. The theorems below
  are instantiated on them.
\<close>

definition demo_env :: Env where
  "demo_env = \<lparr> e_now = 2000, e_uuid = ''b2'', e_walletNow = 1500, e_walletUuid = ''w1'' \<rparr>"

definition demo_round :: "PrismaRoundState \<Rightarrow> int \<Rightarrow> string list \<Rightarrow> int \<Rightarrow> int \<Rightarrow> GameRound" where
  "demo_round st n h t p =
     \<lparr> r_userId = ''u1'', r_state = st, r_seed = utf16 ''s1'', r_nonce = n, r_hand = h,
       r_total = t, r_points = p,
       r_finishedAt = (if st = FINISHED \<or> st = BUST then Some 1200 else None),
       r_createdAt = 1000, r_updatedAt = 1200, r_gameWalletId = None \<rparr>"

definition demo_db :: "GameRound \<Rightarrow> GameWallet option \<Rightarrow> db" where
  "demo_db rnd w =
     \<lparr> gameRound = [''r1'' \<mapsto> rnd], gameWallet = Map.empty(''u1'' := w), roundLog = [] \<rparr>"

definition demo_wallet :: "int \<Rightarrow> GameWallet" where
  "demo_wallet bal = \<lparr> w_id = ''wal_w0'', w_balance = bal, w_createdAt = 900, w_updatedAt = 900 \<rparr>"

definition demo_hit :: "int option \<Rightarrow> HitBody Request" where
  "demo_hit e =
     \<lparr> session = Some ''u1'', json = Some \<lparr> b_roundId = Some ''r1'', b_expectedNonce = e \<rparr> \<rparr>"

definition demo_stand :: "StandBody Request" where
  "demo_stand = \<lparr> session = Some ''u1'', json = Some \<lparr> b_roundId = Some ''r1'' \<rparr> \<rparr>"

section \<open>Double arithmetic: evaluation and exactness\<close>

lemma bits_0: "bits 0 = 0"
  by (simp add: bits.simps)

lemma bits_1: "bits (Suc 0) = 1"
  by (subst bits.simps) (simp add: bits_0)

lemma bits_Bit0: "bits (numeral (Num.Bit0 n)) = 1 + bits (numeral n)"
  by (subst bits.simps) simp

lemma bits_Bit1: "bits (numeral (Num.Bit1 n)) = 1 + bits (numeral n)"
  by (subst bits.simps) simp

lemmas dbl_eval = round53_def rne_div_def bits_0 bits_1 bits_Bit0 bits_Bit1

lemma bits_le: "n < 2 ^ k \<Longrightarrow> bits n \<le> k"
proof (induction k arbitrary: n)
  case 0
  then show ?case by (simp add: bits_0)
next
  case (Suc k)
  show ?case
  proof (cases "n = 0")
    case True
    then show ?thesis by (simp add: bits_0)
  next
    case False
    from Suc.prems have "n div 2 < 2 ^ k" by simp
    then have "bits (n div 2) \<le> k" by (rule Suc.IH)
    with False show ?thesis by (subst bits.simps) simp
  qed
qed

lemma round53_exact: "n < 2 ^ 53 \<Longrightarrow> round53 n = n"
  using bits_le [of n 53] by (simp add: round53_def rne_div_def)

section \<open>Points\<close>

lemma calculatePoints_small:
  assumes "0 < t" "t < 21"
  shows "calculatePoints t = t * 100 div 21"
proof -
  from assms have "t = 1 \<or> t = 2 \<or> t = 3 \<or> t = 4 \<or> t = 5 \<or> t = 6 \<or> t = 7 \<or> t = 8
      \<or> t = 9 \<or> t = 10 \<or> t = 11 \<or> t = 12 \<or> t = 13 \<or> t = 14 \<or> t = 15 \<or> t = 16
      \<or> t = 17 \<or> t = 18 \<or> t = 19 \<or> t = 20"
    by arith
  then show ?thesis
    by (elim disjE)
       (simp_all add: calculatePoints_def dbl_div_def dbl_mul_def Math_floor_def dbl_eval)
qed

lemma floor_points: "\<lfloor>real_of_int t * 100 / 21\<rfloor> = t * 100 div 21"
proof -
  have "real_of_int t * 100 / 21 = real_of_int (t * 100) / real_of_int 21"
    by simp
  then show ?thesis
    by (simp only: floor_divide_of_int_eq)
qed

lemma calculatePoints_mono:
  assumes "0 < a" "a \<le> b" "b \<le> 21"
  shows "calculatePoints a \<le> calculatePoints b"
proof (cases "b = 21")
  case True
  show ?thesis
  proof (cases "a = 21")
    case True
    with \<open>b = 21\<close> show ?thesis by simp
  next
    case False
    with assms True have "a < 21" by simp
    with assms have "calculatePoints a = a * 100 div 21"
      by (simp add: calculatePoints_small)
    moreover have "a * 100 div 21 \<le> 100" using \<open>a < 21\<close> by simp
    moreover have "calculatePoints b = 100" using True by (simp add: calculatePoints_def)
    ultimately show ?thesis by simp
  qed
next
  case False
  with assms have lt: "a < 21" "b < 21" "0 < b" by simp_all
  have "a * 100 div 21 \<le> b * 100 div 21"
    using assms by (intro zdiv_mono1) simp_all
  with assms lt show ?thesis by (simp add: calculatePoints_small)
qed

text \<open>
  Claim C5. For every integer total, \<open>calculatePoints\<close> is 0 above 21, 100 at 21,
  the floor of \<open>(total / 21) * 100\<close> (in exact arithmetic) for totals strictly between 0
  and 21, and 0 otherwise; it is non-decreasing on the totals from 1 to 21; and its values
  at 22, 21, 18 and 0 are 0, 100, 85 and 0. The double rounding of the division and of the
  multiplication never changes the floor.
\<close>

theorem calculatePoints_piecewise:
  "calculatePoints tot =
     (if tot > 21 then 0
      else if tot = 21 then 100
      else if 0 < tot then \<lfloor>(real_of_int tot / 21) * 100\<rfloor>
      else 0)
   \<and> (\<forall>a b. 0 < a \<and> a \<le> b \<and> b \<le> 21 \<longrightarrow> calculatePoints a \<le> calculatePoints b)
   \<and> calculatePoints 22 = 0 \<and> calculatePoints 21 = 100
   \<and> calculatePoints 18 = 85 \<and> calculatePoints 0 = 0"
proof (intro conjI allI impI)
  show "calculatePoints tot =
     (if tot > 21 then 0 else if tot = 21 then 100
      else if 0 < tot then \<lfloor>(real_of_int tot / 21) * 100\<rfloor> else 0)"
  proof (cases "0 < tot \<and> tot < 21")
    case True
    then show ?thesis by (simp add: calculatePoints_small floor_points)
  next
    case False
    then show ?thesis by (auto simp: calculatePoints_def)
  qed
next
  fix a b :: int
  assume "0 < a \<and> a \<le> b \<and> b \<le> 21"
  then show "calculatePoints a \<le> calculatePoints b"
    by (simp add: calculatePoints_mono)
next
  show "calculatePoints 18 = 85" by (simp add: calculatePoints_small)
qed (simp_all add: calculatePoints_def)

theorem calculatePoints_piecewise_witness:
  "(0::int) < 4 \<and> (4::int) \<le> 18 \<and> (18::int) \<le> 21
   \<and> calculatePoints 4 \<le> calculatePoints 18
   \<and> calculatePoints 4 = \<lfloor>(real_of_int 4 / 21) * 100\<rfloor>
   \<and> calculatePoints 4 = 19"
  using calculatePoints_piecewise [of 4] by (simp add: floor_points)

section \<open>The seed hash\<close>

text \<open>
  Claim C8. \<^verbatim>\<open>fnv1a32\<close> is documented as the FNV-1a hash on 32 bits, but its
  multiplication is a multiplication of doubles: the product of a 32-bit value and the
  prime needs up to 57 bits and is rounded to 53 before it is wrapped. On the seed
  \<^verbatim>\<open>"a"\<close> the function returns \<open>0xe40c2930\<close>, the reference hash is
  \<open>0xe40c292c\<close>.
\<close>

theorem fnv1a32_not_reference:
  "fnv1a32 (utf16 ''a'') = 0xe40c2930
   \<and> unat (fnv1a32_reference (utf16 ''a'')) = 0xe40c292c"
  by (simp add: fnv1a32_def fnv1a32_reference_def utf16_def dbl_eval)

section \<open>The shuffle is a permutation\<close>

lemma shuffle_index_le:
  assumes "i < 2 ^ 21"
  shows "shuffle_index u i \<le> i"
proof -
  have u: "unat u < 2 ^ 32"
    using unsigned_less [of u] by simp
  from assms have "i + 1 \<le> 2 ^ 21" by simp
  then have "unat u * (i + 1) \<le> unat u * 2 ^ 21" by (rule mult_le_mono2)
  also have "\<dots> < 2 ^ 32 * 2 ^ 21" using u by simp
  finally have small: "unat u * (i + 1) < 2 ^ 53" by simp
  have "unat u * (i + 1) < 2 ^ 32 * (i + 1)"
    using u by (intro mult_less_mono1) simp_all
  then have "unat u * (i + 1) div 2 ^ 32 < i + 1"
    by (simp add: less_mult_imp_div_less mult.commute)
  with small show ?thesis
    by (simp add: shuffle_index_def round53_exact)
qed

lemma length_swap: "length (swap arr i j) = length arr"
  by (simp add: swap_def)

lemma mset_swap_arr:
  "i < length arr \<Longrightarrow> j < length arr \<Longrightarrow> mset (swap arr i j) = mset arr"
  unfolding swap_def by (rule mset_swap)

lemma shuffle_loop_mset:
  "k < length arr \<Longrightarrow> length arr \<le> 2 ^ 21 \<Longrightarrow> mset (shuffle_loop k arr t) = mset arr"
proof (induction k arbitrary: arr t)
  case 0
  then show ?case by simp
next
  case (Suc k)
  obtain u t' where r: "rng t = (u, t')" by (cases "rng t")
  let ?j = "shuffle_index u (Suc k)"
  from Suc.prems have "Suc k < 2 ^ 21" by simp
  then have "?j \<le> Suc k" by (rule shuffle_index_le)
  with Suc.prems have j: "?j < length arr" by simp
  have "mset (shuffle_loop k (swap arr (Suc k) ?j) t') = mset (swap arr (Suc k) ?j)"
    using Suc.prems by (intro Suc.IH) (simp_all add: length_swap)
  also have "\<dots> = mset arr"
    using Suc.prems j by (simp add: mset_swap_arr)
  finally show ?case by (simp add: r)
qed

lemma shuffleInPlace_mset:
  assumes "length arr \<le> 2 ^ 21"
  shows "mset (shuffleInPlace arr t) = mset arr"
proof (cases arr)
  case Nil
  then show ?thesis by (simp add: shuffleInPlace_def)
next
  case (Cons x xs)
  then have "length arr - 1 < length arr" by simp
  then show ?thesis
    unfolding shuffleInPlace_def using assms by (rule shuffle_loop_mset)
qed

lemma buildDeck_eq:
  "buildDeck =
     [''AS'', ''AH'', ''AD'', ''AC'', ''2S'', ''2H'', ''2D'', ''2C'',
      ''3S'', ''3H'', ''3D'', ''3C'', ''4S'', ''4H'', ''4D'', ''4C'',
      ''5S'', ''5H'', ''5D'', ''5C'', ''6S'', ''6H'', ''6D'', ''6C'',
      ''7S'', ''7H'', ''7D'', ''7C'', ''8S'', ''8H'', ''8D'', ''8C'',
      ''9S'', ''9H'', ''9D'', ''9C'', ''10S'', ''10H'', ''10D'', ''10C'',
      ''JS'', ''JH'', ''JD'', ''JC'', ''QS'', ''QH'', ''QD'', ''QC'',
      ''KS'', ''KH'', ''KD'', ''KC'']"
  by (simp add: buildDeck_def RANKS_def SUITS_def)

lemma length_buildDeck: "length buildDeck = 52"
  by (simp add: buildDeck_eq)

lemma distinct_buildDeck: "distinct buildDeck"
  by (simp add: buildDeck_eq)

lemma buildDeck_pairs:
  "c \<in> set buildDeck \<longleftrightarrow> (\<exists>r \<in> set RANKS. \<exists>s \<in> set SUITS. c = r @ s)"
  by (auto simp: buildDeck_def)

lemma isCardCode_iff: "isCardCode c \<longleftrightarrow> c \<in> set buildDeck"
proof
  assume "isCardCode c"
  then have "slice_suit c \<in> set SUITS" "slice_rank c \<in> set RANKS"
    by (simp_all add: isCardCode_def)
  moreover have "c = slice_rank c @ slice_suit c"
    by (simp add: slice_rank_def slice_suit_def)
  ultimately show "c \<in> set buildDeck"
    unfolding buildDeck_pairs by blast
next
  assume "c \<in> set buildDeck"
  then show "isCardCode c"
    by (simp add: buildDeck_eq) (auto simp: isCardCode_def slice_rank_def slice_suit_def RANKS_def SUITS_def)
qed

lemma createShuffledDeck_mset: "mset (createShuffledDeck seed nonce) = mset buildDeck"
  by (simp add: createShuffledDeck_def shuffleInPlace_mset length_buildDeck)

lemma set_createShuffledDeck: "set (createShuffledDeck seed nonce) = set buildDeck"
  using createShuffledDeck_mset by (rule mset_eq_setD)

lemma length_createShuffledDeck: "length (createShuffledDeck seed nonce) = 52"
  using mset_eq_length [OF createShuffledDeck_mset] by (simp add: length_buildDeck)

lemma distinct_createShuffledDeck: "distinct (createShuffledDeck seed nonce)"
  using mset_eq_imp_distinct_iff [OF createShuffledDeck_mset] distinct_buildDeck by simp

text \<open>
  Claim C1. For every seed string and every nonce, \<open>createShuffledDeck seed nonce\<close> has
  exactly 52 elements, they are pairwise distinct, each is a valid card code (a rank of
  \<open>RANKS\<close> followed by a suit of \<open>SUITS\<close>, accepted by \<open>isCardCode\<close>), and two calls
  with the same seed and nonce give the same sequence: the generator's counter is
  created inside the call from the seed and the nonce alone.
\<close>

theorem createShuffledDeck_deck:
  "length (createShuffledDeck seed nonce) = 52
   \<and> distinct (createShuffledDeck seed nonce)
   \<and> (\<forall>c \<in> set (createShuffledDeck seed nonce).
         isCardCode c \<and> (\<exists>r \<in> set RANKS. \<exists>s \<in> set SUITS. c = r @ s))
   \<and> (\<forall>seed' nonce'. seed' = seed \<and> nonce' = nonce \<longrightarrow>
         createShuffledDeck seed' nonce' = createShuffledDeck seed nonce)"
  by (simp add: length_createShuffledDeck distinct_createShuffledDeck
      set_createShuffledDeck isCardCode_iff)
     (simp add: buildDeck_pairs)

section \<open>Best total\<close>

lemma rankBaseValue_RANKS:
  "r \<in> set RANKS \<Longrightarrow> \<exists>v. rankBaseValue r = Some v \<and> 1 \<le> v \<and> v \<le> 10"
  by (auto simp: RANKS_def rankBaseValue_def Number_def)

lemma isCardCode_rank: "isCardCode c \<Longrightarrow> slice_rank c \<in> set RANKS"
  by (simp add: isCardCode_def)

lemma sum_loop_totals:
  "list_all isCardCode cards \<Longrightarrow>
   \<exists>b n. (\<forall>s a. sum_loop cards s a = Some (s + b, a + n))
     \<and> set (ace_totals cards) = (\<lambda>k. b + 10 * int k) ` {..n}
     \<and> int n \<le> b"
proof (induction cards)
  case Nil
  have "(\<forall>s a. sum_loop [] s a = Some (s + 0, a + 0))
     \<and> set (ace_totals []) = (\<lambda>k. 0 + 10 * int k) ` {..0} \<and> int 0 \<le> 0"
    by simp
  then show ?case by blast
next
  case (Cons c cards)
  then obtain b n where loop: "\<And>s a. sum_loop cards s a = Some (s + b, a + n)"
    and tot: "set (ace_totals cards) = (\<lambda>k. b + 10 * int k) ` {..n}"
    and le: "int n \<le> b"
    by auto
  from Cons.prems have "slice_rank c \<in> set RANKS"
    by (simp add: isCardCode_rank)
  then obtain v where v: "rankBaseValue (slice_rank c) = Some v" "1 \<le> v"
    using rankBaseValue_RANKS by blast
  show ?case
  proof (cases "slice_rank c = ''A''")
    case True
    have "(\<lambda>t. 1 + t) ` (\<lambda>k. b + 10 * int k) ` {..n} \<union> (\<lambda>t. 11 + t) ` (\<lambda>k. b + 10 * int k) ` {..n}
        = (\<lambda>k. (b + 1) + 10 * int k) ` {..Suc n}" (is "?L = ?R")
    proof (intro set_eqI iffI)
      fix x assume "x \<in> ?L"
      then consider k where "k \<le> n" "x = 1 + (b + 10 * int k)"
        | k where "k \<le> n" "x = 11 + (b + 10 * int k)"
        by auto
      then show "x \<in> ?R"
      proof cases
        case 1
        then have "x = (b + 1) + 10 * int k" "k \<le> Suc n" by simp_all
        then show ?thesis by blast
      next
        case 2
        then have "x = (b + 1) + 10 * int (Suc k)" "Suc k \<le> Suc n" by simp_all
        then show ?thesis by blast
      qed
    next
      fix x assume "x \<in> ?R"
      then obtain k where k: "k \<le> Suc n" "x = (b + 1) + 10 * int k" by auto
      show "x \<in> ?L"
      proof (cases k)
        case 0
        with k have "x = 1 + (b + 10 * int 0)" "0 \<le> n" by simp_all
        then show ?thesis by blast
      next
        case (Suc k')
        with k have "x = 11 + (b + 10 * int k')" "k' \<le> n" by simp_all
        then show ?thesis by blast
      qed
    qed
    with True tot have "set (ace_totals (c # cards)) = (\<lambda>k. (b + 1) + 10 * int k) ` {..Suc n}"
      by (simp add: image_Un)
    moreover have "\<forall>s a. sum_loop (c # cards) s a = Some (s + (b + 1), a + Suc n)"
      using True by (simp add: loop)
    moreover have "int (Suc n) \<le> b + 1" using le by simp
    ultimately show ?thesis by blast
  next
    case False
    have "(\<lambda>t. v + t) ` (\<lambda>k. b + 10 * int k) ` {..n} = (\<lambda>k. (b + v) + 10 * int k) ` {..n}"
      by (auto simp: image_iff)
    with False tot v have "set (ace_totals (c # cards)) = (\<lambda>k. (b + v) + 10 * int k) ` {..n}"
      by simp
    moreover have "\<forall>s a. sum_loop (c # cards) s a = Some (s + (b + v), a + n)"
      using False v by (simp add: loop)
    moreover have "int n \<le> b + v" using le v by simp
    ultimately show ?thesis by blast
  qed
qed

lemma upgrade_loop_step:
  "a > 0 \<Longrightarrow> s + 10 \<le> 21 \<Longrightarrow> upgrade_loop s a f = upgrade_loop (s + 10) (a - 1) True"
  by (subst upgrade_loop.simps) simp

lemma upgrade_loop_stop:
  "\<not> (a > 0 \<and> s + 10 \<le> 21) \<Longrightarrow> upgrade_loop s a f = (s, f)"
  by (subst upgrade_loop.simps) auto
lemma upgrade_loop_steps:
  "\<exists>j\<le>a. fst (upgrade_loop s a f) = s + 10 * int j
     \<and> (j < a \<longrightarrow> 21 < s + 10 * int j + 10)
     \<and> (0 < j \<longrightarrow> s + 10 * int j \<le> 21)"
proof (induction s a f rule: upgrade_loop.induct)
  case (1 s a f)
  show ?case
  proof (cases "a > 0 \<and> s + 10 \<le> 21")
    case True
    from "1.IH" [OF True] obtain j where j: "j \<le> a - 1"
      "fst (upgrade_loop (s + 10) (a - 1) True) = s + 10 + 10 * int j"
      "j < a - 1 \<longrightarrow> 21 < s + 10 + 10 * int j + 10"
      "0 < j \<longrightarrow> s + 10 + 10 * int j \<le> 21"
      by (elim exE conjE)
    have "Suc j \<le> a" using j(1) True by linarith
    moreover have "fst (upgrade_loop s a f) = s + 10 * int (Suc j)"
      using True j(2) by (simp add: upgrade_loop_step)
    moreover have "Suc j < a \<longrightarrow> 21 < s + 10 * int (Suc j) + 10"
    proof
      assume "Suc j < a"
      then have "j < a - 1" by linarith
      with j(3) show "21 < s + 10 * int (Suc j) + 10" by simp
    qed
    moreover have "0 < Suc j \<longrightarrow> s + 10 * int (Suc j) \<le> 21"
    proof (cases "j = 0")
      case True
      with \<open>a > 0 \<and> s + 10 \<le> 21\<close> show ?thesis by simp
    next
      case False
      with j(4) show ?thesis by simp
    qed
    ultimately show ?thesis by (intro exI [of _ "Suc j"] conjI)
  next
    case False
    then have "fst (upgrade_loop s a f) = s + 10 * int 0"
      by (simp add: upgrade_loop_stop)
    moreover from False have "0 < a \<longrightarrow> 21 < s + 10 * int 0 + 10" by linarith
    moreover have "(0::nat) \<le> a" by simp
    moreover have "(0::nat) < 0 \<longrightarrow> s + 10 * int 0 \<le> 21" by simp
    ultimately show ?thesis by (intro exI [of _ 0] conjI)
  qed
qed

text \<open>
  Claim C4. For every hand of valid card codes, \<open>calculateBestTotal\<close> returns one of the
  totals the hand has when each ace counts as 1 or as 11 (\<open>ace_totals\<close>); if one of these
  totals does not exceed 21, the returned total does not exceed 21 and is the largest such
  total; otherwise it is the smallest total, all aces counting as 1.
\<close>

theorem calculateBestTotal_best:
  assumes "list_all isCardCode cards"
  shows "\<exists>tot soft. calculateBestTotal cards = Some (tot, soft)
     \<and> tot \<in> set (ace_totals cards)
     \<and> (if \<exists>t \<in> set (ace_totals cards). t \<le> 21
         then tot \<le> 21 \<and> (\<forall>t \<in> set (ace_totals cards). t \<le> 21 \<longrightarrow> t \<le> tot)
         else \<forall>t \<in> set (ace_totals cards). tot \<le> t)"
proof -
  from sum_loop_totals [OF assms] obtain b n
    where loop: "sum_loop cards 0 0 = Some (b, n)"
      and tot: "set (ace_totals cards) = (\<lambda>k. b + 10 * int k) ` {..n}"
    by fastforce
  obtain j where j: "j \<le> n" "fst (upgrade_loop b n False) = b + 10 * int j"
    "j < n \<longrightarrow> 21 < b + 10 * int j + 10" "0 < j \<longrightarrow> b + 10 * int j \<le> 21"
    using upgrade_loop_steps [of n b False] by blast
  obtain t soft where res: "upgrade_loop b n False = (t, soft)"
    by (cases "upgrade_loop b n False")
  with j have t: "t = b + 10 * int j" by simp
  have call: "calculateBestTotal cards = Some (t, soft)"
    by (simp add: calculateBestTotal_def loop res)
  have mem: "t \<in> set (ace_totals cards)"
    unfolding tot t using j(1) by blast
  have best: "if \<exists>x \<in> set (ace_totals cards). x \<le> 21
         then t \<le> 21 \<and> (\<forall>x \<in> set (ace_totals cards). x \<le> 21 \<longrightarrow> x \<le> t)
         else \<forall>x \<in> set (ace_totals cards). t \<le> x"
  proof (cases "\<exists>x \<in> set (ace_totals cards). x \<le> 21")
    case True
    then obtain k where "k \<le> n" "b + 10 * int k \<le> 21" unfolding tot by auto
    then have b: "b \<le> 21" by simp
    have "t \<le> 21" using j(4) b t by (cases "j = 0") simp_all
    moreover have "x \<le> t" if "x \<in> set (ace_totals cards)" "x \<le> 21" for x
    proof -
      from that obtain k where k: "k \<le> n" "x = b + 10 * int k" unfolding tot by auto
      show ?thesis
      proof (rule ccontr)
        assume "\<not> x \<le> t"
        with k t have "j < k" by simp
        then have "j < n" "int j + 1 \<le> int k" using k by simp_all
        with j(3) have "21 < b + 10 * int k" by simp
        with that k show False by simp
      qed
    qed
    ultimately show ?thesis using True by auto
  next
    case False
    have "j = 0"
    proof (rule ccontr)
      assume "j \<noteq> 0"
      with j(4) mem t False show False by auto
    qed
    then have "t = b" using t by simp
    then have "\<forall>x \<in> set (ace_totals cards). t \<le> x" unfolding tot by auto
    with False show ?thesis by auto
  qed
  from call mem best show ?thesis by blast
qed

lemmas card_eval = isCardCode_def slice_rank_def slice_suit_def RANKS_def SUITS_def
  rankBaseValue_def Number_def

theorem calculateBestTotal_best_witness:
  "list_all isCardCode [''AS'', ''AH'', ''9D'']
   \<and> calculateBestTotal [''AS'', ''AH'', ''9D''] = Some (21, True)
   \<and> set (ace_totals [''AS'', ''AH'', ''9D'']) = {11, 21, 31}
   \<and> (11::int) \<le> 21 \<and> (21::int) \<le> 21 \<and> \<not> (31::int) \<le> 21"
proof -
  have valid: "list_all isCardCode [''AS'', ''AH'', ''9D'']"
    by (simp add: card_eval)
  have tots: "set (ace_totals [''AS'', ''AH'', ''9D'']) = {11, 21, 31}"
    by (auto simp: card_eval)
  have sl: "sum_loop [''AS'', ''AH'', ''9D''] 0 0 = Some (11, 2)"
    by (simp add: card_eval)
  have "upgrade_loop 11 2 False = upgrade_loop 21 1 True"
    by (simp add: upgrade_loop_step)
  also have "\<dots> = (21, True)"
    by (simp add: upgrade_loop_stop)
  finally have val: "calculateBestTotal [''AS'', ''AH'', ''9D''] = Some (21, True)"
    unfolding calculateBestTotal_def sl by simp
  from calculateBestTotal_best [OF valid] tots val valid show ?thesis
    by simp
qed

theorem createShuffledDeck_deck_witness:
  "length (createShuffledDeck (utf16 ''s1'') 0) = 52
   \<and> distinct (createShuffledDeck (utf16 ''s1'') 0)
   \<and> isCardCode (createShuffledDeck (utf16 ''s1'') 0 ! 0)
   \<and> utf16 ''s1'' = utf16 ''s1'' \<and> (0::int) = 0
   \<and> createShuffledDeck (utf16 ''s1'') 0 = createShuffledDeck (utf16 ''s1'') 0"
  using createShuffledDeck_deck [of "utf16 ''s1''" 0]
    nth_mem [of 0 "createShuffledDeck (utf16 ''s1'') 0"]
  by simp

section \<open>Choosing the next card\<close>

lemma scan_step:
  "i < int (length d) \<Longrightarrow> has h (at_index d i) \<Longrightarrow> scan d h i = scan d h (i + 1)"
  by (subst scan.simps) simp

lemma scan_found:
  "i < int (length d) \<Longrightarrow> \<not> has h (at_index d i) \<Longrightarrow> scan d h i = Some (at_index d i, i)"
  by (subst scan.simps) simp

lemma scan_end: "\<not> i < int (length d) \<Longrightarrow> scan d h i = None"
  by (subst scan.simps) simp

lemma scan_Some:
  "scan d h i = Some (c, k) \<Longrightarrow>
     i \<le> k \<and> k < int (length d) \<and> c = at_index d k \<and> \<not> has h c
     \<and> (\<forall>m. i \<le> m \<and> m < k \<longrightarrow> has h (at_index d m))"
proof (induction d h i rule: scan.induct)
  case (1 d h i)
  show ?case
  proof (cases "i < int (length d)")
    case False
    with "1.prems" show ?thesis by (simp add: scan_end)
  next
    case inside: True
    show ?thesis
    proof (cases "has h (at_index d i)")
      case False
      with inside "1.prems" show ?thesis by (auto simp: scan_found)
    next
      case True
      with inside "1.prems" have "scan d h (i + 1) = Some (c, k)"
        by (simp add: scan_step)
      with "1.IH" inside True
      have IH: "i + 1 \<le> k" "k < int (length d)" "c = at_index d k" "\<not> has h c"
        "\<forall>m. i + 1 \<le> m \<and> m < k \<longrightarrow> has h (at_index d m)"
        by blast+
      have "has h (at_index d m)" if "i \<le> m" "m < k" for m
      proof (cases "m = i")
        case True
        with \<open>has h (at_index d i)\<close> show ?thesis by simp
      next
        case False
        with that have "i + 1 \<le> m" by simp
        with IH(5) that show ?thesis by simp
      qed
      with IH show ?thesis by simp
    qed
  qed
qed

lemma scan_None:
  "scan d h i = None \<Longrightarrow> i \<le> m \<Longrightarrow> m < int (length d) \<Longrightarrow> has h (at_index d m)"
proof (induction d h i rule: scan.induct)
  case (1 d h i)
  from "1.prems" have inside: "i < int (length d)" by simp
  show ?case
  proof (cases "has h (at_index d i)")
    case False
    with inside "1.prems" show ?thesis by (simp add: scan_found)
  next
    case True
    with inside "1.prems" have rest: "scan d h (i + 1) = None"
      by (simp add: scan_step)
    show ?thesis
    proof (cases "m = i")
      case True
      with \<open>has h (at_index d i)\<close> show ?thesis by simp
    next
      case False
      with "1.prems" have "i + 1 \<le> m" by simp
      with "1.IH" inside True rest "1.prems" show ?thesis by simp
    qed
  qed
qed

lemma has_at_index:
  "0 \<le> m \<Longrightarrow> m < int (length d) \<Longrightarrow> has h (at_index d m) \<longleftrightarrow> d ! nat m \<in> set h"
  by (simp add: has_def at_index_def)

lemma at_index_Some:
  "at_index d k = Some x \<longleftrightarrow> 0 \<le> k \<and> k < int (length d) \<and> x = d ! nat k"
  by (auto simp: at_index_def)

text \<open>
  What \<open>nextAvailable\<close> returns when it returns a card: the card is at the returned
  index of the deck and not in the hand; it is the first unused card from the index
  \<open>n\<close> on, or, when there is none there, the first unused card of the deck.
\<close>

lemma nextAvailable_card:
  assumes "nextAvailable d h n = (c, k)" "\<not> falsy c" "[] \<notin> set d"
  shows "\<exists>x. c = Some x \<and> x \<noteq> [] \<and> at_index d k = Some x \<and> x \<notin> set h
     \<and> (n \<le> k \<longrightarrow> (\<forall>m. 0 \<le> m \<and> n \<le> m \<and> m < k \<longrightarrow> d ! nat m \<in> set h))
     \<and> (k < n \<longrightarrow> (\<forall>m. 0 \<le> m \<and> m < int (length d) \<and> (n \<le> m \<or> m < k)
                          \<longrightarrow> d ! nat m \<in> set h))"
proof -
  from assms(2) obtain x where x: "c = Some x" "x \<noteq> []"
    by (cases c) (auto simp: falsy_def)
  have finish: ?thesis
    if "c = at_index d k" "\<not> has h c"
      "n \<le> k \<Longrightarrow> \<forall>m. 0 \<le> m \<and> n \<le> m \<and> m < k \<longrightarrow> d ! nat m \<in> set h"
      "k < n \<Longrightarrow> \<forall>m. 0 \<le> m \<and> m < int (length d) \<and> (n \<le> m \<or> m < k) \<longrightarrow> d ! nat m \<in> set h"
  proof -
    from that(1) x have "at_index d k = Some x" by simp
    moreover from that(2) x have "x \<notin> set h" by (simp add: has_def)
    ultimately show ?thesis using x that(3,4) by blast
  qed
  show ?thesis
  proof (cases "falsy (at_index d n) \<or> has h (at_index d n)")
    case False
    with assms(1) have "c = at_index d n" "k = n"
      by (auto simp: nextAvailable_def)
    with False show ?thesis
      by (intro finish) auto
  next
    case True
    show ?thesis
    proof (cases "scan d h n")
      case None
      with True assms(1) x have second: "scan d h 0 = Some (c, k)"
        by (auto simp: nextAvailable_def falsy_def split: option.splits)
      from scan_Some [OF second]
      have k: "0 \<le> k" "k < int (length d)" "c = at_index d k" "\<not> has h c"
        and before: "\<forall>m. 0 \<le> m \<and> m < k \<longrightarrow> has h (at_index d m)"
        by blast+
      have after: "has h (at_index d m)" if "n \<le> m" "m < int (length d)" for m
        using scan_None [OF None that] .
      have wrapped: "d ! nat m \<in> set h"
        if "0 \<le> m" "m < int (length d)" "n \<le> m \<or> m < k" for m
      proof -
        from that before after have "has h (at_index d m)" by blast
        with that show ?thesis by (simp add: has_at_index)
      qed
      have "k < n"
      proof (rule ccontr)
        assume "\<not> k < n"
        with k after [of k] have "has h (at_index d k)" by simp
        with k show False by simp
      qed
      with k wrapped show ?thesis
        by (intro finish) simp_all
    next
      case (Some found)
      obtain c1 k1 where found: "found = (c1, k1)" by (cases found)
      from scan_Some [OF Some [unfolded found]]
      have f: "n \<le> k1" "k1 < int (length d)" "c1 = at_index d k1" "\<not> has h c1"
        and before: "\<forall>m. n \<le> m \<and> m < k1 \<longrightarrow> has h (at_index d m)"
        by blast+
      show ?thesis
      proof (cases "falsy c1")
        case False
        with True assms(1) Some found have ck: "c = c1" "k = k1"
          by (auto simp: nextAvailable_def)
        have "d ! nat m \<in> set h" if "0 \<le> m" "n \<le> m" "m < k1" for m
        proof -
          from that before have "has h (at_index d m)" by simp
          with that f show ?thesis by (simp add: has_at_index)
        qed
        with ck f show ?thesis
          by (intro finish) simp_all
      next
        case c1: True
        show ?thesis
        proof (cases "scan d h 0")
          case None
          with True assms(1) Some found c1 have "c = c1"
            by (simp add: nextAvailable_def)
          with c1 assms(2) show ?thesis by simp
        next
          case second: (Some found2)
          with True assms(1) Some found c1 have second': "scan d h 0 = Some (c, k)"
            by (simp add: nextAvailable_def)
          from scan_Some [OF second']
          have k: "0 \<le> k" "k < int (length d)" "c = at_index d k" "\<not> has h c"
            and before0: "\<forall>m. 0 \<le> m \<and> m < k \<longrightarrow> has h (at_index d m)"
            by blast+
          have "d ! nat m \<in> set h" if "0 \<le> m" "m < k" for m
          proof -
            from that before0 have "has h (at_index d m)" by simp
            with that k show ?thesis by (simp add: has_at_index)
          qed
          moreover have "n \<le> k"
          proof -
            have "c1 = None"
            proof (rule ccontr)
              assume "c1 \<noteq> None"
              with c1 have "c1 = Some []" by (simp add: falsy_def)
              with f(3) have "0 \<le> k1" "k1 < int (length d)" "d ! nat k1 = []"
                by (auto simp: at_index_def split: if_splits)
              then have "[] \<in> set d"
                using nth_mem [of "nat k1" d] by simp
              with assms(3) show False by simp
            qed
            with f have "k1 < 0" by (auto simp: at_index_def split: if_splits)
            with f k show ?thesis by simp
          qed
          ultimately show ?thesis using k
            by (intro finish) auto
        qed
      qed
    qed
  qed
qed

lemma scan_exhausted:
  assumes "set d \<subseteq> set h" "scan d h i = Some (c, k)"
  shows "c = None"
proof (rule ccontr)
  assume "c \<noteq> None"
  then obtain x where x: "c = Some x" by auto
  from scan_Some [OF assms(2)] have "c = at_index d k" "\<not> has h c" by blast+
  with x have "0 \<le> k" "k < int (length d)" "x = d ! nat k" "x \<notin> set h"
    by (auto simp: at_index_def has_def split: if_splits)
  then have "x \<in> set d" "x \<notin> set h"
    using nth_mem [of "nat k" d] by simp_all
  with assms(1) show False by blast
qed

lemma nextAvailable_exhausted:
  assumes "set d \<subseteq> set h"
  shows "fst (nextAvailable d h n) = None"
proof -
  have first: "falsy (at_index d n) \<or> has h (at_index d n)"
  proof (cases "at_index d n")
    case None
    then show ?thesis by (simp add: falsy_def)
  next
    case (Some x)
    then have "x \<in> set d"
      using nth_mem [of "nat n" d] by (auto simp: at_index_def split: if_splits)
    with assms Some show ?thesis by (auto simp: has_def)
  qed
  have a: "fst (case scan d h i of Some found \<Rightarrow> found | None \<Rightarrow> (None, j)) = None" for i j
    using scan_exhausted [OF assms, of i] by (cases "scan d h i") auto
  obtain c1 k1 where one: "(case scan d h n of Some found \<Rightarrow> found | None \<Rightarrow> (None, n)) = (c1, k1)"
    by (cases "case scan d h n of Some found \<Rightarrow> found | None \<Rightarrow> (None, n)")
  with a [of n n] have c1: "c1 = None" by simp
  have "fst (case scan d h 0 of Some found \<Rightarrow> found | None \<Rightarrow> (None, k1)) = None"
    by (rule a)
  with first one c1 show ?thesis
    by (simp add: nextAvailable_def falsy_def)
qed

lemma scan_from_start:
  assumes "\<not> set d \<subseteq> set h" "[] \<notin> set d"
  shows "\<exists>c k. scan d h 0 = Some (c, k) \<and> \<not> falsy c"
proof -
  from assms(1) obtain x where "x \<in> set d" "x \<notin> set h" by blast
  then obtain m where m: "m < length d" "d ! m \<notin> set h"
    by (auto simp: in_set_conv_nth)
  have "scan d h 0 \<noteq> None"
  proof
    assume "scan d h 0 = None"
    from scan_None [OF this, of "int m"] m have "has h (at_index d (int m))" by simp
    with m show False by (simp add: has_def at_index_def)
  qed
  then obtain c k where ck: "scan d h 0 = Some (c, k)" by auto
  from scan_Some [OF ck] have "0 \<le> k" "k < int (length d)" "c = at_index d k" by blast+
  then have "c = Some (d ! nat k)" "d ! nat k \<in> set d"
    using nth_mem [of "nat k" d] by (simp_all add: at_index_def)
  with assms(2) have "\<not> falsy c" by (auto simp: falsy_def)
  with ck show ?thesis by blast
qed

lemma nextAvailable_available:
  assumes "\<not> set d \<subseteq> set h" "[] \<notin> set d"
  shows "\<not> falsy (fst (nextAvailable d h n))"
proof -
  from scan_from_start [OF assms] obtain c k
    where second: "scan d h 0 = Some (c, k)" "\<not> falsy c" by blast
  show ?thesis
  proof (cases "falsy (at_index d n) \<or> has h (at_index d n)")
    case False
    then show ?thesis by (simp add: nextAvailable_def)
  next
    case True
    obtain c1 k1 where one: "(case scan d h n of Some found \<Rightarrow> found | None \<Rightarrow> (None, n)) = (c1, k1)"
      by (cases "case scan d h n of Some found \<Rightarrow> found | None \<Rightarrow> (None, n)")
    with True second show ?thesis
      by (cases "falsy c1") (simp_all add: nextAvailable_def)
  qed
qed

lemma nextAvailable_in_sync:
  assumes "distinct d" "[] \<notin> set d" "0 \<le> n" "n < int (length d)" "h = take (nat n) d"
  shows "nextAvailable d h n = (Some (d ! nat n), n)"
proof -
  from assms have at: "at_index d n = Some (d ! nat n)"
    by (simp add: at_index_def)
  from assms have "d ! nat n \<in> set d"
    using nth_mem [of "nat n" d] by simp
  with assms(2) have nonempty: "d ! nat n \<noteq> []" by metis
  have "d ! nat n \<notin> set (take (nat n) d)"
  proof
    assume "d ! nat n \<in> set (take (nat n) d)"
    then obtain i where i: "i < length (take (nat n) d)" "take (nat n) d ! i = d ! nat n"
      by (auto simp: in_set_conv_nth)
    with assms have "i < nat n" "d ! i = d ! nat n" by simp_all
    with assms show False
      by (simp add: nth_eq_iff_index_eq)
  qed
  with at nonempty assms show ?thesis
    by (simp add: nextAvailable_def falsy_def has_def)
qed

lemma isCardCode_nonempty: "isCardCode c \<Longrightarrow> c \<noteq> []"
  by (auto simp: isCardCode_def slice_suit_def SUITS_def)

lemma createShuffledDeck_valid: "c \<in> set (createShuffledDeck seed nonce) \<Longrightarrow> isCardCode c"
  by (simp add: set_createShuffledDeck isCardCode_iff)

lemma createShuffledDeck_nonempty: "[] \<notin> set (createShuffledDeck seed nonce)"
  using createShuffledDeck_valid isCardCode_nonempty by blast

lemma calculateBestTotal_Some:
  assumes "list_all isCardCode cards"
  shows "\<exists>tot soft. calculateBestTotal cards = Some (tot, soft)"
proof -
  from sum_loop_totals [OF assms] obtain b n where "sum_loop cards 0 0 = Some (b, n)"
    by fastforce
  then show ?thesis
    by (cases "upgrade_loop b n False") (simp add: calculateBestTotal_def)
qed

lemma assertCardCodes_valid: "list_all isCardCode arr \<Longrightarrow> assertCardCodes arr = Inr arr"
  by (auto simp: assertCardCodes_def list_all_iff find_None_iff split: option.splits)

lemma assertCardCodes_Inr: "assertCardCodes arr = Inr cards \<Longrightarrow> cards = arr \<and> list_all isCardCode arr"
  by (auto simp: assertCardCodes_def list_all_iff find_None_iff split: option.splits)

text \<open>The snapshot of a round, when its hand decodes.\<close>

lemma toApiState_valid:
  "list_all isCardCode (r_hand r) \<Longrightarrow>
   toApiState rid r bal =
     Inr \<lparr> g_roundId = rid, g_state = fromPrismaRoundState (r_state r), g_seed = r_seed r,
           g_nonce = r_nonce r, g_hand = r_hand r, g_total = r_total r,
           g_pointsLastRound =
             (if r_state r = FINISHED \<or> r_state r = BUST then r_points r else 0),
           g_balance = bal \<rparr>"
  by (cases "r_state r") (simp_all add: toApiState_def assertCardCodes_valid)

section \<open>Properties of the hit handler\<close>

lemma balanceOr0_cong: "gameWallet s' = gameWallet s \<Longrightarrow> balanceOr0 s' u = balanceOr0 s u"
  by (simp add: balanceOr0_def)

text \<open>The two outcomes of the handler once the round is loaded and accepted.\<close>

lemma hit_apply_exhausted:
  "falsy (fst (nextAvailable (createShuffledDeck (r_seed r) 0) (r_hand r) (r_nonce r))) \<Longrightarrow>
   hit_apply env u rid r s = Some ((410, Error ''Deck exhausted. Start a new round.''), s)"
  by (cases "nextAvailable (createShuffledDeck (r_seed r) 0) (r_hand r) (r_nonce r)")
     (simp add: hit_apply_def)

lemma hit_apply_deal:
  assumes "nextAvailable (createShuffledDeck (r_seed r) 0) (r_hand r) (r_nonce r) = (Some x, k)"
    "x \<noteq> []" "calculateBestTotal (r_hand r @ [x]) = Some (tot, soft)"
  shows "hit_apply env u rid r s =
     Some (respond 200 State
             (toApiState rid (hit_update (e_now env) r (r_hand r @ [x]) tot) (balanceOr0 s u)),
           s \<lparr> gameRound := (gameRound s)(rid \<mapsto> hit_update (e_now env) r (r_hand r @ [x]) tot),
               roundLog := roundLog s @ [hit_log env rid r (Some x) tot] \<rparr>)"
  using assms by (simp add: hit_apply_def falsy_def balanceOr0_def Let_def)

lemma hit_apply_cases:
  assumes "hit_apply env u rid r s = Some (resp, s')"
  shows "(s' = s \<and> resp = (410, Error ''Deck exhausted. Start a new round.'')
          \<and> falsy (fst (nextAvailable (createShuffledDeck (r_seed r) 0) (r_hand r) (r_nonce r))))
       \<or> (\<exists>x k tot soft.
            nextAvailable (createShuffledDeck (r_seed r) 0) (r_hand r) (r_nonce r) = (Some x, k)
            \<and> x \<noteq> [] \<and> calculateBestTotal (r_hand r @ [x]) = Some (tot, soft)
            \<and> resp = respond 200 State
                 (toApiState rid (hit_update (e_now env) r (r_hand r @ [x]) tot) (balanceOr0 s u))
            \<and> s' = s \<lparr> gameRound := (gameRound s)(rid \<mapsto> hit_update (e_now env) r (r_hand r @ [x]) tot),
                        roundLog := roundLog s @ [hit_log env rid r (Some x) tot] \<rparr>)"
proof -
  obtain c k where ck: "nextAvailable (createShuffledDeck (r_seed r) 0) (r_hand r) (r_nonce r) = (c, k)"
    by (cases "nextAvailable (createShuffledDeck (r_seed r) 0) (r_hand r) (r_nonce r)")
  show ?thesis
  proof (cases "falsy c")
    case True
    with ck assms show ?thesis
      by (simp add: hit_apply_exhausted)
  next
    case False
    then obtain x where x: "c = Some x" "x \<noteq> []"
      by (cases c) (auto simp: falsy_def)
    from assms ck x obtain tot soft where t: "calculateBestTotal (r_hand r @ [x]) = Some (tot, soft)"
      by (cases "calculateBestTotal (r_hand r @ [x])") (auto simp: hit_apply_def falsy_def Let_def)
    from hit_apply_deal [OF ck [unfolded x(1)] x(2) t, of env u rid s] assms
    have "resp = respond 200 State
                 (toApiState rid (hit_update (e_now env) r (r_hand r @ [x]) tot) (balanceOr0 s u))"
      "s' = s \<lparr> gameRound := (gameRound s)(rid \<mapsto> hit_update (e_now env) r (r_hand r @ [x]) tot),
                        roundLog := roundLog s @ [hit_log env rid r (Some x) tot] \<rparr>"
      by simp_all
    with ck x t show ?thesis by blast
  qed
qed

lemma findRound_Some:
  "findRound s rid u = Some r \<longleftrightarrow> gameRound s rid = Some r \<and> r_userId r = u"
  by (auto simp: findRound_def split: option.splits)

lemma hit_POST_accepted:
  assumes "session req = Some u" "json req = Some b" "b_roundId b = Some rid" "rid \<noteq> []"
    "gameRound s rid = Some r" "r_userId r = u" "r_state r = PLAYING"
    "b_expectedNonce b = None \<or> b_expectedNonce b = Some (r_nonce r)"
  shows "hit_POST env req s = hit_apply env u rid r s"
proof -
  from assms have "findRound s rid u = Some r" by (simp add: findRound_Some)
  with assms show ?thesis by (auto simp: hit_POST_def)
qed

lemma hit_POST_cases:
  assumes "hit_POST env req s = Some (resp, s')"
  shows "s' = s \<or> (\<exists>u rid r. gameRound s rid = Some r \<and> hit_apply env u rid r s = Some (resp, s'))"
  using assms
  by (auto simp: hit_POST_def findRound_Some split: option.splits if_splits)

lemma hit_update_fields:
  "r_hand (hit_update now r h t) = h"
  "r_total (hit_update now r h t) = t"
  "r_nonce (hit_update now r h t) = r_nonce r + 1"
  "r_seed (hit_update now r h t) = r_seed r"
  "r_userId (hit_update now r h t) = r_userId r"
  "r_createdAt (hit_update now r h t) = r_createdAt r"
  "r_gameWalletId (hit_update now r h t) = r_gameWalletId r"
  "r_updatedAt (hit_update now r h t) = now"
  "r_state (hit_update now r h t) = (if isBust t then BUST else PLAYING)"
  "r_points (hit_update now r h t) = (if isBust t then 0 else r_points r)"
  "r_finishedAt (hit_update now r h t) = (if isBust t then Some now else None)"
  by (simp_all add: hit_update_def Let_def)

lemma hit_apply_available:
  assumes "\<not> set (createShuffledDeck (r_seed r) 0) \<subseteq> set (r_hand r)"
    "list_all isCardCode (r_hand r)"
  shows "\<exists>x k tot soft snap.
     nextAvailable (createShuffledDeck (r_seed r) 0) (r_hand r) (r_nonce r) = (Some x, k)
     \<and> x \<noteq> [] \<and> calculateBestTotal (r_hand r @ [x]) = Some (tot, soft)
     \<and> toApiState rid (hit_update (e_now env) r (r_hand r @ [x]) tot) (balanceOr0 s u) = Inr snap
     \<and> hit_apply env u rid r s =
         Some ((200, State snap),
               s \<lparr> gameRound := (gameRound s)(rid \<mapsto> hit_update (e_now env) r (r_hand r @ [x]) tot),
                   roundLog := roundLog s @ [hit_log env rid r (Some x) tot] \<rparr>)"
proof -
  let ?deck = "createShuffledDeck (r_seed r) 0"
  obtain c k where ck: "nextAvailable ?deck (r_hand r) (r_nonce r) = (c, k)"
    by (cases "nextAvailable ?deck (r_hand r) (r_nonce r)")
  from nextAvailable_available [OF assms(1) createShuffledDeck_nonempty, of "r_nonce r"] ck
  have nf: "\<not> falsy c" by simp
  from nextAvailable_card [OF ck nf createShuffledDeck_nonempty]
  obtain x where x: "c = Some x" "x \<noteq> []" "at_index ?deck k = Some x" by blast
  then have "x \<in> set ?deck"
    using nth_mem [of "nat k" ?deck] by (auto simp: at_index_def split: if_splits)
  then have "isCardCode x" by (rule createShuffledDeck_valid)
  with assms(2) have valid: "list_all isCardCode (r_hand r @ [x])" by simp
  from calculateBestTotal_Some [OF valid] obtain tot soft
    where t: "calculateBestTotal (r_hand r @ [x]) = Some (tot, soft)" by blast
  let ?r' = "hit_update (e_now env) r (r_hand r @ [x]) tot"
  from valid have "list_all isCardCode (r_hand ?r')" by (simp add: hit_update_fields)
  from toApiState_valid [OF this, of rid "balanceOr0 s u"]
  obtain snap where snap: "toApiState rid ?r' (balanceOr0 s u) = Inr snap" by blast
  from hit_apply_deal [OF ck [unfolded x(1)] x(2) t, of env u rid s] snap
  have "hit_apply env u rid r s =
         Some ((200, State snap),
               s \<lparr> gameRound := (gameRound s)(rid \<mapsto> ?r'),
                   roundLog := roundLog s @ [hit_log env rid r (Some x) tot] \<rparr>)"
    by (simp add: respond_def)
  with ck x t snap show ?thesis by blast
qed

text \<open>
  Claim C7. Take a hit request that reaches the drawing step: an authenticated request
  for a round of the user that is \<open>PLAYING\<close>, with no \<open>expectedNonce\<close> or the current
  one; the nonce and the hand of the round are arbitrary. Whatever the handler answers,
  it leaves the store as it was or appends to the hand one card \<open>x\<close> that was not in the
  hand; \<open>x\<close> is the card at an index \<open>k\<close> of the canonical deck, and it is the first unused
  card from the index \<open>nonce\<close> on or, when there is none there, the first unused card of
  the deck. When the hand holds every card of the deck the answer is 410 (deck exhausted)
  and the store is unchanged. When a card of the deck is unused and the hand holds valid
  card codes, the answer is 200.
\<close>

theorem hit_never_deals_duplicate:
  assumes "session req = Some u" "json req = Some b" "b_roundId b = Some rid" "rid \<noteq> []"
    and "gameRound s rid = Some r" "r_userId r = u" "r_state r = PLAYING"
    and "b_expectedNonce b = None \<or> b_expectedNonce b = Some (r_nonce r)"
  shows
    "(\<forall>resp s'. hit_POST env req s = Some (resp, s') \<longrightarrow>
        s' = s \<or>
        (\<exists>x k r'. gameRound s' rid = Some r' \<and> r_hand r' = r_hand r @ [x]
           \<and> x \<notin> set (r_hand r)
           \<and> at_index (createShuffledDeck (r_seed r) 0) k = Some x
           \<and> (r_nonce r \<le> k \<longrightarrow>
                (\<forall>m. 0 \<le> m \<and> r_nonce r \<le> m \<and> m < k \<longrightarrow>
                     createShuffledDeck (r_seed r) 0 ! nat m \<in> set (r_hand r)))
           \<and> (k < r_nonce r \<longrightarrow>
                (\<forall>m. 0 \<le> m \<and> m < 52 \<and> (r_nonce r \<le> m \<or> m < k) \<longrightarrow>
                     createShuffledDeck (r_seed r) 0 ! nat m \<in> set (r_hand r)))))
     \<and> (set (createShuffledDeck (r_seed r) 0) \<subseteq> set (r_hand r) \<longrightarrow>
          hit_POST env req s = Some ((410, Error ''Deck exhausted. Start a new round.''), s))
     \<and> (\<not> set (createShuffledDeck (r_seed r) 0) \<subseteq> set (r_hand r)
          \<and> list_all isCardCode (r_hand r) \<longrightarrow>
          (\<exists>snap s'. hit_POST env req s = Some ((200, State snap), s')))"
proof -
  let ?deck = "createShuffledDeck (r_seed r) 0"
  have post: "hit_POST env req s = hit_apply env u rid r s"
    using assms by (rule hit_POST_accepted)
  have dealt: "s' = s \<or>
        (\<exists>x k r'. gameRound s' rid = Some r' \<and> r_hand r' = r_hand r @ [x]
           \<and> x \<notin> set (r_hand r) \<and> at_index ?deck k = Some x
           \<and> (r_nonce r \<le> k \<longrightarrow>
                (\<forall>m. 0 \<le> m \<and> r_nonce r \<le> m \<and> m < k \<longrightarrow> ?deck ! nat m \<in> set (r_hand r)))
           \<and> (k < r_nonce r \<longrightarrow>
                (\<forall>m. 0 \<le> m \<and> m < 52 \<and> (r_nonce r \<le> m \<or> m < k) \<longrightarrow>
                     ?deck ! nat m \<in> set (r_hand r))))"
    if "hit_POST env req s = Some (resp, s')" for resp s'
  proof -
    from that post have "hit_apply env u rid r s = Some (resp, s')" by simp
    from hit_apply_cases [OF this] show ?thesis
    proof (elim disjE exE conjE)
      assume "s' = s"
      then show ?thesis by simp
    next
      fix x k tot soft
      assume na: "nextAvailable ?deck (r_hand r) (r_nonce r) = (Some x, k)" and "x \<noteq> []"
        and s': "s' = s \<lparr> gameRound := (gameRound s)(rid \<mapsto> hit_update (e_now env) r (r_hand r @ [x]) tot),
                        roundLog := roundLog s @ [hit_log env rid r (Some x) tot] \<rparr>"
      from \<open>x \<noteq> []\<close> have "\<not> falsy (Some x)" by (simp add: falsy_def)
      from nextAvailable_card [OF na this createShuffledDeck_nonempty]
      have card: "at_index ?deck k = Some x" "x \<notin> set (r_hand r)"
        "r_nonce r \<le> k \<longrightarrow>
           (\<forall>m. 0 \<le> m \<and> r_nonce r \<le> m \<and> m < k \<longrightarrow> ?deck ! nat m \<in> set (r_hand r))"
        "k < r_nonce r \<longrightarrow>
           (\<forall>m. 0 \<le> m \<and> m < int (length ?deck) \<and> (r_nonce r \<le> m \<or> m < k) \<longrightarrow>
                ?deck ! nat m \<in> set (r_hand r))"
        by blast+
      let ?r' = "hit_update (e_now env) r (r_hand r @ [x]) tot"
      from s' have "gameRound s' rid = Some ?r'" "r_hand ?r' = r_hand r @ [x]"
        by (simp_all add: hit_update_fields)
      with card show ?thesis
        by (intro disjI2 exI [of _ x] exI [of _ k] exI [of _ ?r'])
           (simp add: length_createShuffledDeck)
    qed
  qed
  have exhausted: "hit_POST env req s = Some ((410, Error ''Deck exhausted. Start a new round.''), s)"
    if "set ?deck \<subseteq> set (r_hand r)"
  proof -
    from nextAvailable_exhausted [OF that, of "r_nonce r"]
    have "falsy (fst (nextAvailable ?deck (r_hand r) (r_nonce r)))"
      by (simp add: falsy_def)
    then show ?thesis
      unfolding post by (rule hit_apply_exhausted)
  qed
  have available: "\<exists>snap s'. hit_POST env req s = Some ((200, State snap), s')"
    if "\<not> set ?deck \<subseteq> set (r_hand r)" "list_all isCardCode (r_hand r)"
    using hit_apply_available [OF that, of rid env s u] unfolding post by blast
  from dealt exhausted available show ?thesis by blast
qed

lemma take_deck_valid: "list_all isCardCode (take n (createShuffledDeck seed nonce))"
  unfolding list_all_iff
  using createShuffledDeck_valid set_take_subset [of n "createShuffledDeck seed nonce"]
  by blast

text \<open>\<^verbatim>\<open>initRound\<close> with \<^verbatim>\<open>dealOne\<close> and no nonce, as the start handler calls it.\<close>

lemma initRound_dealOne:
  "\<exists>ir. initRound roundId ts1 ts2 \<lparr> p_seed = sd, p_nonce = None, p_dealOne = Some True \<rparr>
          = Some (Inr ir)
     \<and> i_hand ir = [createShuffledDeck sd 0 ! 0] \<and> i_nonce ir = 1 \<and> i_seed ir = sd
     \<and> i_state ir = Playing
     \<and> i_hand ir = take (nat (i_nonce ir)) (createShuffledDeck sd 0)"
proof -
  let ?deck = "createShuffledDeck sd 0"
  have len: "length ?deck = 52" by (rule length_createShuffledDeck)
  then obtain c rest where deck: "?deck = c # rest" by (cases ?deck) simp_all
  have "list_all isCardCode (take 1 ?deck)" by (rule take_deck_valid)
  with deck have "list_all isCardCode [c]" by simp
  from calculateBestTotal_Some [OF this] obtain tot soft
    where "calculateBestTotal [c] = Some (tot, soft)" by blast
  with deck show ?thesis
    by (simp add: initRound_def drawCard_def)
qed

text \<open>
  Claim C2. Take a hit request that reaches the drawing step, for a round whose nonce
  \<open>n\<close> is the number of cards drawn (\<open>0 \<le> n < 52\<close>) and whose hand is the first \<open>n\<close>
  cards of the canonical deck \<open>createShuffledDeck seed 0\<close>. The handler answers 200,
  appends the card at index \<open>n\<close> of the deck (the card of the \<open>n + 1\<close>-th draw) and
  increments the nonce, so that the round is again consistent. And \<open>initRound\<close> called
  with \<open>dealOne\<close> and no nonce deals the card at index 0 of the same deck and returns
  the nonce 1.
\<close>

theorem hit_deals_deck_at_nonce:
  assumes "session req = Some u" "json req = Some b" "b_roundId b = Some rid" "rid \<noteq> []"
    and "gameRound s rid = Some r" "r_userId r = u" "r_state r = PLAYING"
    and "b_expectedNonce b = None \<or> b_expectedNonce b = Some (r_nonce r)"
    and "0 \<le> r_nonce r" "r_nonce r < 52"
    and "r_hand r = take (nat (r_nonce r)) (createShuffledDeck (r_seed r) 0)"
  shows
    "(\<exists>snap s' r'. hit_POST env req s = Some ((200, State snap), s')
        \<and> gameRound s' rid = Some r'
        \<and> r_hand r' = r_hand r @ [createShuffledDeck (r_seed r) 0 ! nat (r_nonce r)]
        \<and> r_nonce r' = r_nonce r + 1
        \<and> r_seed r' = r_seed r
        \<and> r_hand r' = take (nat (r_nonce r')) (createShuffledDeck (r_seed r') 0)
        \<and> g_hand snap = r_hand r' \<and> g_nonce snap = r_nonce r'
        \<and> roundLog s' = roundLog s @
             [hit_log env rid r (Some (createShuffledDeck (r_seed r) 0 ! nat (r_nonce r)))
                (r_total r')])
     \<and> (\<exists>ir. initRound roundId ts1 ts2 \<lparr> p_seed = sd, p_nonce = None, p_dealOne = Some True \<rparr>
                = Some (Inr ir)
           \<and> i_hand ir = [createShuffledDeck sd 0 ! 0] \<and> i_nonce ir = 1 \<and> i_seed ir = sd)"
proof -
  let ?deck = "createShuffledDeck (r_seed r) 0"
  let ?n = "nat (r_nonce r)"
  let ?x = "?deck ! ?n"
  have post: "hit_POST env req s = hit_apply env u rid r s"
    using assms(1-8) by (rule hit_POST_accepted)
  have len: "length ?deck = 52" by (rule length_createShuffledDeck)
  have na: "nextAvailable ?deck (r_hand r) (r_nonce r) = (Some ?x, r_nonce r)"
    using distinct_createShuffledDeck createShuffledDeck_nonempty assms(9,10,11)
    by (intro nextAvailable_in_sync) (simp_all add: len)
  from assms(10) len have "?x \<in> set ?deck"
    using nth_mem [of ?n ?deck] assms(9) by simp
  then have x: "isCardCode ?x" by (rule createShuffledDeck_valid)
  then have nonempty: "?x \<noteq> []" by (rule isCardCode_nonempty)
  have "list_all isCardCode (r_hand r)"
    unfolding assms(11) by (rule take_deck_valid)
  with x have valid: "list_all isCardCode (r_hand r @ [?x])" by simp
  from calculateBestTotal_Some [OF valid] obtain tot soft
    where t: "calculateBestTotal (r_hand r @ [?x]) = Some (tot, soft)" by blast
  let ?r' = "hit_update (e_now env) r (r_hand r @ [?x]) tot"
  let ?s' = "s \<lparr> gameRound := (gameRound s)(rid \<mapsto> ?r'),
                 roundLog := roundLog s @ [hit_log env rid r (Some ?x) tot] \<rparr>"
  from valid have "list_all isCardCode (r_hand ?r')" by (simp add: hit_update_fields)
  note snap = toApiState_valid [OF this, of rid "balanceOr0 s u"]
  let ?snap = "\<lparr> g_roundId = rid, g_state = fromPrismaRoundState (r_state ?r'),
                  g_seed = r_seed ?r', g_nonce = r_nonce ?r', g_hand = r_hand ?r',
                  g_total = r_total ?r',
                  g_pointsLastRound =
                    (if r_state ?r' = FINISHED \<or> r_state ?r' = BUST then r_points ?r' else 0),
                  g_balance = balanceOr0 s u \<rparr>"
  have call: "hit_POST env req s = Some ((200, State ?snap), ?s')"
    unfolding post hit_apply_deal [OF na nonempty t] snap by (simp add: respond_def)
  have "take (Suc ?n) ?deck = take ?n ?deck @ [?x]"
    using assms(9,10) len by (intro take_Suc_conv_app_nth) simp
  moreover have "nat (r_nonce r + 1) = Suc ?n" using assms(9) by simp
  ultimately have sync: "r_hand ?r' = take (nat (r_nonce ?r')) (createShuffledDeck (r_seed ?r') 0)"
    using assms(11) by (simp add: hit_update_fields)
  have "\<exists>snap s' r'. hit_POST env req s = Some ((200, State snap), s')
        \<and> gameRound s' rid = Some r'
        \<and> r_hand r' = r_hand r @ [?x]
        \<and> r_nonce r' = r_nonce r + 1
        \<and> r_seed r' = r_seed r
        \<and> r_hand r' = take (nat (r_nonce r')) (createShuffledDeck (r_seed r') 0)
        \<and> g_hand snap = r_hand r' \<and> g_nonce snap = r_nonce r'
        \<and> roundLog s' = roundLog s @ [hit_log env rid r (Some ?x) (r_total r')]"
    using call sync
    by (intro exI [of _ ?snap] exI [of _ ?s'] exI [of _ ?r']) (simp add: hit_update_fields)
  with initRound_dealOne [of roundId ts1 ts2 sd] show ?thesis by blast
qed

section \<open>Properties of the stand handler\<close>

lemma ensureWallet_Some: "gameWallet s u = Some w \<Longrightarrow> ensureWallet env u s = (w, s)"
  by (simp add: ensureWallet_def)

lemma ensureWallet_None:
  "gameWallet s u = None \<Longrightarrow>
   ensureWallet env u s = (newWallet env, s \<lparr> gameWallet := (gameWallet s)(u \<mapsto> newWallet env) \<rparr>)"
  by (simp add: ensureWallet_def Let_def)

lemma ensureWallet_store:
  assumes "ensureWallet env u s = (w, s1)"
  shows "gameRound s1 = gameRound s" "roundLog s1 = roundLog s" "gameWallet s1 u = Some w"
    "w_balance w = balanceOr0 s u" "balanceOr0 s1 = balanceOr0 s"
    "gameWallet s u \<noteq> None \<longrightarrow> s1 = s"
    "gameWallet s u = None \<longrightarrow> s1 = s \<lparr> gameWallet := (gameWallet s)(u \<mapsto> newWallet env) \<rparr>"
  using assms
  by (auto simp: ensureWallet_def balanceOr0_def newWallet_def Let_def fun_eq_iff
      split: option.splits if_splits)

lemma stand_update_fields:
  "r_state (stand_update now r t p) = FINISHED"
  "r_total (stand_update now r t p) = t"
  "r_points (stand_update now r t p) = p"
  "r_finishedAt (stand_update now r t p) = Some now"
  "r_updatedAt (stand_update now r t p) = now"
  "r_seed (stand_update now r t p) = r_seed r"
  "r_nonce (stand_update now r t p) = r_nonce r"
  "r_hand (stand_update now r t p) = r_hand r"
  "r_userId (stand_update now r t p) = r_userId r"
  "r_createdAt (stand_update now r t p) = r_createdAt r"
  "r_gameWalletId (stand_update now r t p) = r_gameWalletId r"
  by (simp_all add: stand_update_def)

text \<open>What the part of the handler before the transaction does to the store.\<close>

lemma stand_prepare_store:
  assumes "stand_prepare env req s = Some (x, s1)"
  shows "s1 = s \<or> (\<exists>u. gameWallet s u = None
                     \<and> s1 = s \<lparr> gameWallet := (gameWallet s)(u \<mapsto> newWallet env) \<rparr>)"
  using assms
  by (auto simp: stand_prepare_def stand_load_def stand_check_def stand_decide_def ensureWallet_def Let_def
      split: option.splits if_splits sum.splits prod.splits)

lemma stand_prepare_Inr:
  assumes "stand_prepare env req s = Some (Inr l, s1)"
  shows "gameRound s (st_rid l) = Some (st_round l)" "gameWallet s1 (st_userId l) = Some (st_wallet l)"
  using assms
  by (auto simp: stand_prepare_def stand_load_def stand_check_def stand_decide_def ensureWallet_def
      findRound_def Let_def
      split: option.splits if_splits sum.splits prod.splits)

text \<open>What the transaction does to the store.\<close>

lemma stand_transaction_store:
  assumes "stand_transaction env l s1 = (res, s2)"
  shows "s2 = s1
     \<or> (\<exists>cur. gameRound s1 (st_rid l) = Some cur \<and> r_state cur = PLAYING
           \<and> r_userId cur = st_userId l
           \<and> ((\<not> 0 < st_points l
                \<and> s2 = s1 \<lparr> gameRound := (gameRound s1)
                               (st_rid l \<mapsto> stand_update (e_now env) cur (st_total l) (st_points l)),
                            roundLog := roundLog s1 @ [stand_log env l] \<rparr>)
              \<or> (0 < st_points l
                \<and> (\<exists>w. gameWallet s1 (st_userId l) = Some w
                     \<and> s2 = s1 \<lparr> gameRound := (gameRound s1)
                               (st_rid l \<mapsto> stand_update (e_now env) cur (st_total l) (st_points l)),
                            roundLog := roundLog s1 @ [stand_log env l],
                            gameWallet := (gameWallet s1)
                               (st_userId l \<mapsto> w \<lparr> w_balance := w_balance w + st_points l,
                                                   w_updatedAt := e_now env \<rparr>) \<rparr>))))"
  using assms
  by (auto simp: stand_transaction_def Let_def split: option.splits if_splits)

lemma stand_POST_store:
  assumes "stand_POST env req s = Some (resp, s2)"
  shows "\<exists>s1. (s1 = s \<or> (\<exists>u. gameWallet s u = None
                     \<and> s1 = s \<lparr> gameWallet := (gameWallet s)(u \<mapsto> newWallet env) \<rparr>))
     \<and> (s2 = s1 \<or> (\<exists>l res. stand_transaction env l s1 = (res, s2)))"
proof -
  from assms obtain x s1 where prep: "stand_prepare env req s = Some (x, s1)"
    by (auto simp: stand_POST_def split: option.splits)
  note store = stand_prepare_store [OF prep]
  show ?thesis
  proof (cases x)
    case (Inl r)
    with assms prep have "s2 = s1" by (simp add: stand_POST_def)
    with store show ?thesis by blast
  next
    case (Inr l)
    with assms prep obtain res where "stand_transaction env l s1 = (res, s2)"
      by (auto simp: stand_POST_def split: prod.splits)
    with store show ?thesis by blast
  qed
qed

text \<open>No handler lowers a balance, and the hit handler never touches a wallet.\<close>

lemma stand_POST_balance:
  assumes "stand_POST env req s = Some (resp, s2)"
  shows "balanceOr0 s v \<le> balanceOr0 s2 v"
proof -
  from stand_POST_store [OF assms] obtain s1
    where s1: "s1 = s \<or> (\<exists>u. gameWallet s u = None
                     \<and> s1 = s \<lparr> gameWallet := (gameWallet s)(u \<mapsto> newWallet env) \<rparr>)"
      and s2: "s2 = s1 \<or> (\<exists>l res. stand_transaction env l s1 = (res, s2))"
    by blast
  from s1 have a: "balanceOr0 s v \<le> balanceOr0 s1 v"
    by (auto simp: balanceOr0_def newWallet_def Let_def)
  have b: "balanceOr0 s1 v \<le> balanceOr0 s2 v"
  proof (cases "s2 = s1")
    case True
    then show ?thesis by simp
  next
    case False
    with s2 obtain l res where "stand_transaction env l s1 = (res, s2)" by blast
    from stand_transaction_store [OF this] False show ?thesis
      by (auto simp: balanceOr0_def)
  qed
  from a b show ?thesis by simp
qed

lemma hit_POST_wallet:
  assumes "hit_POST env req s = Some (resp, s')"
  shows "gameWallet s' = gameWallet s"
proof -
  from hit_POST_cases [OF assms] show ?thesis
  proof (elim disjE exE conjE)
    fix u rid r
    assume "hit_apply env u rid r s = Some (resp, s')"
    from hit_apply_cases [OF this] show ?thesis by auto
  qed simp
qed

lemma stand_prepare_playing:
  assumes "session req = Some u" "json req = Some b" "b_roundId b = Some rid" "rid \<noteq> []"
    and "gameRound s rid = Some r" "r_userId r = u" "r_state r = PLAYING"
    and "list_all isCardCode (r_hand r)" "calculateBestTotal (r_hand r) = Some (tot, soft)"
    and "ensureWallet env u s = (w, s1)"
  shows "stand_prepare env req s =
     Some (Inr \<lparr> st_userId = u, st_rid = rid, st_round = r, st_wallet = w, st_total = tot,
                 st_points = calculatePoints tot \<rparr>, s1)"
proof -
  from assms have "findRound s rid u = Some r" by (simp add: findRound_Some)
  with assms show ?thesis
    by (simp add: stand_prepare_def stand_load_def stand_check_def stand_decide_def assertCardCodes_valid)
qed

lemma stand_prepare_not_playing:
  assumes "session req = Some u" "json req = Some b" "b_roundId b = Some rid" "rid \<noteq> []"
    and "gameRound s rid = Some r" "r_userId r = u" "r_state r \<noteq> PLAYING"
    and "ensureWallet env u s = (w, s1)"
  shows "stand_prepare env req s =
     Some (Inl (respond 409 State (toApiState rid r (w_balance w))), s1)"
proof -
  from assms have "findRound s rid u = Some r" by (simp add: findRound_Some)
  with assms show ?thesis
    by (simp add: stand_prepare_def stand_load_def stand_check_def stand_decide_def)
qed

lemma stand_transaction_finalize:
  assumes "gameRound s1 (st_rid l) = Some cur" "r_userId cur = st_userId l" "r_state cur = PLAYING"
    and "gameWallet s1 (st_userId l) = Some (st_wallet l)"
  shows "stand_transaction env l s1 =
     (if 0 < st_points l
      then (Inr (True, stand_update (e_now env) cur (st_total l) (st_points l),
                 (st_wallet l) \<lparr> w_balance := w_balance (st_wallet l) + st_points l,
                                w_updatedAt := e_now env \<rparr>),
            s1 \<lparr> gameRound := (gameRound s1)
                    (st_rid l \<mapsto> stand_update (e_now env) cur (st_total l) (st_points l)),
                roundLog := roundLog s1 @ [stand_log env l],
                gameWallet := (gameWallet s1)
                    (st_userId l \<mapsto> (st_wallet l)
                       \<lparr> w_balance := w_balance (st_wallet l) + st_points l,
                         w_updatedAt := e_now env \<rparr>) \<rparr>)
      else (Inr (True, stand_update (e_now env) cur (st_total l) (st_points l), st_wallet l),
            s1 \<lparr> gameRound := (gameRound s1)
                    (st_rid l \<mapsto> stand_update (e_now env) cur (st_total l) (st_points l)),
                roundLog := roundLog s1 @ [stand_log env l] \<rparr>))"
  using assms by (simp add: stand_transaction_def Let_def)

lemma updateBalance_ge: "balance \<le> updateBalance balance points"
  by (simp add: updateBalance_def)

text \<open>
  Claim C3. Take a stand request that reaches a round of the user that is \<open>PLAYING\<close> and
  whose hand holds valid card codes. The handler answers 200, stores the round as
  \<open>FINISHED\<close> with the total \<open>calculateBestTotal\<close> gives for the hand and the points
  \<open>calculatePoints\<close> gives for this total, and the user's balance (0 when the user had no
  wallet) becomes \<open>updateBalance balance points\<close>: increased by exactly the points when
  they are positive, unchanged otherwise; no other wallet changes. No hit or stand
  request lowers a balance, and \<open>updateBalance\<close> never returns less than the balance.
\<close>

theorem stand_finalizes_and_credits:
  assumes "session req = Some u" "json req = Some b" "b_roundId b = Some rid" "rid \<noteq> []"
    and "gameRound s rid = Some r" "r_userId r = u" "r_state r = PLAYING"
    and "list_all isCardCode (r_hand r)"
  shows
    "(\<exists>tot soft snap s' r'.
        calculateBestTotal (r_hand r) = Some (tot, soft)
        \<and> stand_POST env req s = Some ((200, State snap), s')
        \<and> gameRound s' rid = Some r'
        \<and> r_state r' = FINISHED \<and> r_total r' = tot \<and> r_points r' = calculatePoints tot
        \<and> balanceOr0 s' u = updateBalance (balanceOr0 s u) (calculatePoints tot)
        \<and> (0 < calculatePoints tot \<longleftrightarrow> balanceOr0 s' u = balanceOr0 s u + calculatePoints tot
                                          \<and> balanceOr0 s' u \<noteq> balanceOr0 s u)
        \<and> (\<not> 0 < calculatePoints tot \<longleftrightarrow> balanceOr0 s' u = balanceOr0 s u)
        \<and> (\<forall>v. v \<noteq> u \<longrightarrow> gameWallet s' v = gameWallet s v)
        \<and> g_state snap = Finished \<and> g_total snap = tot
        \<and> g_pointsLastRound snap = calculatePoints tot
        \<and> g_balance snap = balanceOr0 s' u)
     \<and> (\<forall>env' req' t resp t' v.
          stand_POST env' req' t = Some (resp, t') \<longrightarrow> balanceOr0 t v \<le> balanceOr0 t' v)
     \<and> (\<forall>env' req' t resp t' v.
          hit_POST env' req' t = Some (resp, t') \<longrightarrow> balanceOr0 t v \<le> balanceOr0 t' v)
     \<and> (\<forall>balance points. balance \<le> updateBalance balance points)"
proof -
  from calculateBestTotal_Some [OF assms(8)] obtain tot soft
    where tot: "calculateBestTotal (r_hand r) = Some (tot, soft)" by blast
  obtain w s1 where ens: "ensureWallet env u s = (w, s1)"
    by (cases "ensureWallet env u s")
  note store = ensureWallet_store [OF ens]
  let ?p = "calculatePoints tot"
  let ?l = "\<lparr> st_userId = u, st_rid = rid, st_round = r, st_wallet = w, st_total = tot,
              st_points = ?p \<rparr>"
  let ?r' = "stand_update (e_now env) r tot ?p"
  have prep: "stand_prepare env req s = Some (Inr ?l, s1)"
    using assms tot ens by (rule stand_prepare_playing)
  have tx: "stand_transaction env ?l s1 =
     (if 0 < ?p
      then (Inr (True, ?r', w \<lparr> w_balance := w_balance w + ?p, w_updatedAt := e_now env \<rparr>),
            s1 \<lparr> gameRound := (gameRound s1)(rid \<mapsto> ?r'),
                roundLog := roundLog s1 @ [stand_log env ?l],
                gameWallet := (gameWallet s1)
                    (u \<mapsto> w \<lparr> w_balance := w_balance w + ?p, w_updatedAt := e_now env \<rparr>) \<rparr>)
      else (Inr (True, ?r', w),
            s1 \<lparr> gameRound := (gameRound s1)(rid \<mapsto> ?r'),
                roundLog := roundLog s1 @ [stand_log env ?l] \<rparr>))"
    using stand_transaction_finalize [of s1 ?l r env] assms(5,6,7) store(1,3) by simp
  have valid': "list_all isCardCode (r_hand ?r')"
    using assms(8) by (simp add: stand_update_fields)
  note snap = toApiState_valid [OF valid']
  obtain snap s' where call: "stand_POST env req s = Some ((200, State snap), s')"
    and s': "s' = snd (stand_transaction env ?l s1)"
    and snap_eq: "toApiState rid ?r' (balanceOr0 s' u) = Inr snap"
    using store(3)
    by (cases "0 < ?p")
       (simp_all add: stand_POST_def prep tx stand_respond_def respond_def snap balanceOr0_def)
  have round': "gameRound s' rid = Some ?r'"
    unfolding s' tx by simp
  have bal: "balanceOr0 s' u = updateBalance (balanceOr0 s u) ?p"
    unfolding s' tx using store(3,4)
    by (simp add: balanceOr0_def updateBalance_def)
  have others: "gameWallet s' v = gameWallet s v" if "v \<noteq> u" for v
  proof -
    from store(6,7) have "gameWallet s1 v = gameWallet s v"
      using that by (cases "gameWallet s u") auto
    with that show ?thesis unfolding s' tx by simp
  qed
  from snap_eq have snap_fields: "g_state snap = Finished" "g_total snap = tot"
    "g_pointsLastRound snap = ?p" "g_balance snap = balanceOr0 s' u"
    unfolding snap by (auto simp: stand_update_fields)
  have first: "\<exists>tot soft snap s' r'.
        calculateBestTotal (r_hand r) = Some (tot, soft)
        \<and> stand_POST env req s = Some ((200, State snap), s')
        \<and> gameRound s' rid = Some r'
        \<and> r_state r' = FINISHED \<and> r_total r' = tot \<and> r_points r' = calculatePoints tot
        \<and> balanceOr0 s' u = updateBalance (balanceOr0 s u) (calculatePoints tot)
        \<and> (0 < calculatePoints tot \<longleftrightarrow> balanceOr0 s' u = balanceOr0 s u + calculatePoints tot
                                          \<and> balanceOr0 s' u \<noteq> balanceOr0 s u)
        \<and> (\<not> 0 < calculatePoints tot \<longleftrightarrow> balanceOr0 s' u = balanceOr0 s u)
        \<and> (\<forall>v. v \<noteq> u \<longrightarrow> gameWallet s' v = gameWallet s v)
        \<and> g_state snap = Finished \<and> g_total snap = tot
        \<and> g_pointsLastRound snap = calculatePoints tot
        \<and> g_balance snap = balanceOr0 s' u"
    using tot call round' bal others snap_fields
    by (intro exI [of _ tot] exI [of _ soft] exI [of _ snap] exI [of _ s'] exI [of _ ?r'])
       (auto simp: stand_update_fields updateBalance_def)
  have hit: "balanceOr0 t v \<le> balanceOr0 t' v" if "hit_POST env' req' t = Some (resp, t')"
    for env' req' t resp t' v
    using hit_POST_wallet [OF that] by (simp add: balanceOr0_def)
  from first stand_POST_balance hit updateBalance_ge show ?thesis by blast
qed

section \<open>Conflicts\<close>

lemma hit_POST_not_playing:
  assumes "session req = Some u" "json req = Some b" "b_roundId b = Some rid" "rid \<noteq> []"
    and "gameRound s rid = Some r" "r_userId r = u" "r_state r \<noteq> PLAYING"
  shows "hit_POST env req s = Some (respond 409 State (toApiState rid r (balanceOr0 s u)), s)"
proof -
  from assms have "findRound s rid u = Some r" by (simp add: findRound_Some)
  with assms show ?thesis by (simp add: hit_POST_def)
qed

lemma hit_POST_stale:
  assumes "session req = Some u" "json req = Some b" "b_roundId b = Some rid" "rid \<noteq> []"
    and "gameRound s rid = Some r" "r_userId r = u" "r_state r = PLAYING"
    and "b_expectedNonce b = Some e" "e \<noteq> r_nonce r"
  shows "hit_POST env req s =
     Some (respond 409 (ErrorCurrent ''Round changed since client last sync'')
             (toApiState rid r (balanceOr0 s u)), s)"
proof -
  from assms have "findRound s rid u = Some r" by (simp add: findRound_Some)
  with assms show ?thesis by (simp add: hit_POST_def)
qed

lemma stand_POST_not_playing:
  assumes "session req = Some u" "json req = Some b" "b_roundId b = Some rid" "rid \<noteq> []"
    and "gameRound s rid = Some r" "r_userId r = u" "r_state r \<noteq> PLAYING"
  shows "stand_POST env req s =
     Some (respond 409 State (toApiState rid r (balanceOr0 s u)), snd (ensureWallet env u s))"
proof -
  obtain w s1 where ens: "ensureWallet env u s = (w, s1)"
    by (cases "ensureWallet env u s")
  from stand_prepare_not_playing [OF assms ens] ensureWallet_store(4) [OF ens] ens
  show ?thesis by (simp add: stand_POST_def)
qed

text \<open>
  What the two handlers do on a conflict. Take a round of the user whose stored hand
  holds valid card codes, a hit request and a stand request of this user for it. If the
  round is not \<open>PLAYING\<close>, both handlers answer 409 with the snapshot of the round as it
  is; the hit handler leaves the whole store unchanged; the stand handler leaves the
  rounds, the log and every balance unchanged, and the whole store when the user has a
  wallet row; when the user has none, it has inserted one with balance 0 before it
  answers. If the round is \<open>PLAYING\<close> and the hit request carries an \<open>expectedNonce\<close>
  different from the round's nonce, the hit handler answers 409 with the same snapshot
  (under \<open>current\<close>) and leaves the whole store unchanged.
\<close>

lemma conflict_leaves_round_unchanged:
  assumes "session hreq = Some u" "json hreq = Some hb" "b_roundId hb = Some rid"
    and "session sreq = Some u" "json sreq = Some sb" "b_roundId sb = Some rid"
    and "rid \<noteq> []"
    and "gameRound s rid = Some r" "r_userId r = u" "list_all isCardCode (r_hand r)"
  shows
    "\<exists>snap. toApiState rid r (balanceOr0 s u) = Inr snap
       \<and> (r_state r \<noteq> PLAYING \<longrightarrow>
            hit_POST env hreq s = Some ((409, State snap), s)
            \<and> (\<exists>s'. stand_POST env sreq s = Some ((409, State snap), s')
                  \<and> gameRound s' = gameRound s \<and> roundLog s' = roundLog s
                  \<and> balanceOr0 s' = balanceOr0 s
                  \<and> (gameWallet s u \<noteq> None \<longrightarrow> s' = s)
                  \<and> (gameWallet s u = None \<longrightarrow>
                       s' = s \<lparr> gameWallet := (gameWallet s)(u \<mapsto> newWallet env) \<rparr>)))
       \<and> (r_state r = PLAYING \<and> (\<exists>e. b_expectedNonce hb = Some e \<and> e \<noteq> r_nonce r) \<longrightarrow>
            hit_POST env hreq s =
              Some ((409, ErrorCurrent ''Round changed since client last sync'' snap), s))"
proof -
  from toApiState_valid [OF assms(10), of rid "balanceOr0 s u"]
  obtain snap where snap: "toApiState rid r (balanceOr0 s u) = Inr snap" by blast
  obtain w s1 where ens: "ensureWallet env u s = (w, s1)"
    by (cases "ensureWallet env u s")
  note store = ensureWallet_store [OF ens]
  have hit: "hit_POST env hreq s = Some ((409, State snap), s)" if "r_state r \<noteq> PLAYING"
    using hit_POST_not_playing [OF assms(1,2,3,7,8,9) that, of env] snap
    by (simp add: respond_def)
  have stand: "stand_POST env sreq s = Some ((409, State snap), s1)" if "r_state r \<noteq> PLAYING"
    using stand_POST_not_playing [OF assms(4,5,6,7,8,9) that, of env] snap ens
    by (simp add: respond_def)
  have stale: "hit_POST env hreq s =
      Some ((409, ErrorCurrent ''Round changed since client last sync'' snap), s)"
    if "r_state r = PLAYING" "b_expectedNonce hb = Some e" "e \<noteq> r_nonce r" for e
    using hit_POST_stale [OF assms(1,2,3,7,8,9) that, of env] snap
    by (simp add: respond_def)
  have stand': "\<exists>s'. stand_POST env sreq s = Some ((409, State snap), s')
                  \<and> gameRound s' = gameRound s \<and> roundLog s' = roundLog s
                  \<and> balanceOr0 s' = balanceOr0 s
                  \<and> (gameWallet s u \<noteq> None \<longrightarrow> s' = s)
                  \<and> (gameWallet s u = None \<longrightarrow>
                       s' = s \<lparr> gameWallet := (gameWallet s)(u \<mapsto> newWallet env) \<rparr>)"
    if "r_state r \<noteq> PLAYING"
    using stand [OF that] store by (intro exI [of _ s1]) simp
  show ?thesis
  proof (intro exI [of _ snap] conjI impI)
    show "toApiState rid r (balanceOr0 s u) = Inr snap" by (rule snap)
  next
    assume "r_state r \<noteq> PLAYING"
    then show "hit_POST env hreq s = Some ((409, State snap), s)" by (rule hit)
  next
    assume "r_state r \<noteq> PLAYING"
    then show "\<exists>s'. stand_POST env sreq s = Some ((409, State snap), s')
                  \<and> gameRound s' = gameRound s \<and> roundLog s' = roundLog s
                  \<and> balanceOr0 s' = balanceOr0 s
                  \<and> (gameWallet s u \<noteq> None \<longrightarrow> s' = s)
                  \<and> (gameWallet s u = None \<longrightarrow>
                       s' = s \<lparr> gameWallet := (gameWallet s)(u \<mapsto> newWallet env) \<rparr>)"
      by (rule stand')
  next
    assume "r_state r = PLAYING \<and> (\<exists>e. b_expectedNonce hb = Some e \<and> e \<noteq> r_nonce r)"
    then show "hit_POST env hreq s =
        Some ((409, ErrorCurrent ''Round changed since client last sync'' snap), s)"
      using stale by blast
  qed
qed


section \<open>What a hit and a stand leave alone\<close>

lemma stand_transaction_round:
  "stand_transaction env l s1 = (res, ss) \<Longrightarrow> gameRound s1 rid = Some r \<Longrightarrow>
   gameRound ss rid = Some r
   \<or> gameRound ss rid = Some (stand_update (e_now env) r (st_total l) (st_points l))"
  by (auto simp: stand_transaction_def Let_def split: option.splits if_splits)

text \<open>
  Claim C10. Whatever a hit request answers, every stored round keeps its seed, owner,
  creation date and wallet reference: it differs from the round before at most in hand,
  total, nonce, state, points and the dates \<open>finishedAt\<close> and \<open>updatedAt\<close>. Whatever
  a stand request answers, every stored round keeps moreover its nonce and its hand: it
  differs at most in state, total, points and the two dates.
\<close>

theorem hit_stand_frame:
  "(hit_POST env hreq s = Some (hresp, hs) \<and> gameRound s rid = Some r \<longrightarrow>
      (\<exists>r'. gameRound hs rid = Some r'
         \<and> r_seed r' = r_seed r \<and> r_userId r' = r_userId r
         \<and> r_createdAt r' = r_createdAt r \<and> r_gameWalletId r' = r_gameWalletId r
         \<and> (\<exists>h t n st p f upd.
               r' = r \<lparr> r_hand := h, r_total := t, r_nonce := n, r_state := st,
                        r_points := p, r_finishedAt := f, r_updatedAt := upd \<rparr>)))
   \<and> (stand_POST env sreq s = Some (sresp, ss) \<and> gameRound s rid = Some r \<longrightarrow>
      (\<exists>r'. gameRound ss rid = Some r'
         \<and> r_seed r' = r_seed r \<and> r_nonce r' = r_nonce r \<and> r_hand r' = r_hand r
         \<and> r_userId r' = r_userId r
         \<and> r_createdAt r' = r_createdAt r \<and> r_gameWalletId r' = r_gameWalletId r
         \<and> (\<exists>st t p f upd.
               r' = r \<lparr> r_state := st, r_total := t, r_points := p,
                        r_finishedAt := f, r_updatedAt := upd \<rparr>)))"
proof (intro conjI impI; elim conjE)
  assume call: "hit_POST env hreq s = Some (hresp, hs)" and r: "gameRound s rid = Some r"
  have same: "\<exists>h t n st p f upd.
               r = r \<lparr> r_hand := h, r_total := t, r_nonce := n, r_state := st,
                        r_points := p, r_finishedAt := f, r_updatedAt := upd \<rparr>"
    by (intro exI [of _ "r_hand r"] exI [of _ "r_total r"] exI [of _ "r_nonce r"]
        exI [of _ "r_state r"] exI [of _ "r_points r"] exI [of _ "r_finishedAt r"]
        exI [of _ "r_updatedAt r"]) simp
  have upd: "\<exists>h t n st p f upd.
               hit_update now r hand tot = r \<lparr> r_hand := h, r_total := t, r_nonce := n, r_state := st,
                        r_points := p, r_finishedAt := f, r_updatedAt := upd \<rparr>" for now hand tot
    unfolding hit_update_def Let_def by blast
  from hit_POST_cases [OF call]
  consider "hs = s" | u rid' r0 where "gameRound s rid' = Some r0"
    "hit_apply env u rid' r0 s = Some (hresp, hs)"
    by blast
  then show "\<exists>r'. gameRound hs rid = Some r'
         \<and> r_seed r' = r_seed r \<and> r_userId r' = r_userId r
         \<and> r_createdAt r' = r_createdAt r \<and> r_gameWalletId r' = r_gameWalletId r
         \<and> (\<exists>h t n st p f upd.
               r' = r \<lparr> r_hand := h, r_total := t, r_nonce := n, r_state := st,
                        r_points := p, r_finishedAt := f, r_updatedAt := upd \<rparr>)"
  proof cases
    case 1
    with r same show ?thesis by simp
  next
    case 2
    from hit_apply_cases [OF 2(2)]
    consider "hs = s"
      | x tot where "hs = s \<lparr> gameRound := (gameRound s)
            (rid' \<mapsto> hit_update (e_now env) r0 (r_hand r0 @ [x]) tot),
          roundLog := roundLog s @ [hit_log env rid' r0 (Some x) tot] \<rparr>"
      by blast
    then show ?thesis
    proof cases
      case 1
      with r same show ?thesis by simp
    next
      case b: 2
      show ?thesis
      proof (cases "rid' = rid")
        case True
        with 2(1) r have "r0 = r" by simp
        with b True upd [of "e_now env" "r_hand r @ [x]" tot] show ?thesis
          by (simp add: hit_update_fields)
      next
        case False
        with b r same show ?thesis by simp
      qed
    qed
  qed
next
  assume call: "stand_POST env sreq s = Some (sresp, ss)" and r: "gameRound s rid = Some r"
  have same: "\<exists>st t p f upd.
               r = r \<lparr> r_state := st, r_total := t, r_points := p,
                        r_finishedAt := f, r_updatedAt := upd \<rparr>"
    by (intro exI [of _ "r_state r"] exI [of _ "r_total r"] exI [of _ "r_points r"]
        exI [of _ "r_finishedAt r"] exI [of _ "r_updatedAt r"]) simp
  have upd: "\<exists>st t p f upd.
               stand_update now r tot pts = r \<lparr> r_state := st, r_total := t, r_points := p,
                        r_finishedAt := f, r_updatedAt := upd \<rparr>" for now tot pts
    unfolding stand_update_def by blast
  from stand_POST_store [OF call] obtain s1
    where s1: "s1 = s \<or> (\<exists>u. gameWallet s u = None
                     \<and> s1 = s \<lparr> gameWallet := (gameWallet s)(u \<mapsto> newWallet env) \<rparr>)"
      and s2: "ss = s1 \<or> (\<exists>l res. stand_transaction env l s1 = (res, ss))"
    by blast
  from s1 have rounds: "gameRound s1 = gameRound s" by auto
  have "gameRound ss rid = Some r
      \<or> (\<exists>tot pts. gameRound ss rid = Some (stand_update (e_now env) r tot pts))"
  proof (cases "ss = s1")
    case True
    with rounds r show ?thesis by simp
  next
    case False
    with s2 obtain l res where "stand_transaction env l s1 = (res, ss)" by blast
    from stand_transaction_round [OF this, of rid r] rounds r show ?thesis
      by auto
  qed
  then show "\<exists>r'. gameRound ss rid = Some r'
         \<and> r_seed r' = r_seed r \<and> r_nonce r' = r_nonce r \<and> r_hand r' = r_hand r
         \<and> r_userId r' = r_userId r
         \<and> r_createdAt r' = r_createdAt r \<and> r_gameWalletId r' = r_gameWalletId r
         \<and> (\<exists>st t p f upd.
               r' = r \<lparr> r_state := st, r_total := t, r_points := p,
                        r_finishedAt := f, r_updatedAt := upd \<rparr>)"
  proof (elim disjE exE)
    assume "gameRound ss rid = Some r"
    with same show ?thesis by simp
  next
    fix tot pts
    assume "gameRound ss rid = Some (stand_update (e_now env) r tot pts)"
    with upd [of "e_now env" tot pts] show ?thesis
      by (simp add: stand_update_fields)
  qed
qed

section \<open>The canonical deck of the seed s1\<close>

lemma fnv1a32_s1: "fnv1a32 (utf16 ''s1'') = 0x651b5a0"
  by (simp add: fnv1a32_def utf16_def dbl_eval)

lemma createSeededRng_s1: "createSeededRng (utf16 ''s1'') 0 = 0x651b5a0"
  by (simp add: createSeededRng_def mulberry32_def fnv1a32_s1)

lemma shuffle_loop_numeral:
  "shuffle_loop (numeral k) arr t =
     shuffle_loop (pred_numeral k)
       (swap arr (numeral k) (shuffle_index (fst (rng t)) (numeral k))) (snd (rng t))"
  by (simp add: numeral_eq_Suc split: prod.split)

lemma shuffle_loop_1:
  "shuffle_loop (Suc 0) arr t = swap arr 1 (shuffle_index (fst (rng t)) 1)"
  by (simp split: prod.split)

lemma list_update_Cons_numeral:
  "(x # xs)[numeral k := y] = x # xs[pred_numeral k := y]"
  by (simp add: numeral_eq_Suc)

lemma createShuffledDeck_loop:
  "createShuffledDeck seed nonce = shuffle_loop 51 buildDeck (createSeededRng seed nonce)"
  by (simp add: createShuffledDeck_def shuffleInPlace_def length_buildDeck)

lemma createShuffledDeck_s1:
  "createShuffledDeck (utf16 ''s1'') 0 =
     [''4S'', ''6H'', ''6D'', ''KS'', ''5H'', ''4H'', ''JC'', ''2S'', ''5S'', ''7C'',
      ''5C'', ''3C'', ''9S'', ''7H'', ''JS'', ''8H'', ''2C'', ''7S'', ''10H'', ''AC'',
      ''8C'', ''6S'', ''9D'', ''KC'', ''QC'', ''JD'', ''KD'', ''AS'', ''QH'', ''JH'',
      ''4C'', ''8S'', ''AH'', ''2D'', ''3D'', ''AD'', ''QD'', ''10C'', ''10S'', ''9C'',
      ''2H'', ''10D'', ''6C'', ''4D'', ''KH'', ''7D'', ''5D'', ''3H'', ''9H'', ''8D'',
      ''3S'', ''QS'']"
  by (simp add: createShuffledDeck_loop createSeededRng_s1 buildDeck_eq
      shuffle_loop_numeral shuffle_loop_1 rng_def dbl_eval shuffle_index_def swap_def
      list_update_Cons_numeral Let_def del: shuffle_loop.simps)

lemmas demo_defs = demo_env_def demo_round_def demo_db_def demo_wallet_def demo_hit_def
  demo_stand_def

lemma demo_round_fields:
  "r_userId (demo_round st n h t p) = ''u1''"
  "r_state (demo_round st n h t p) = st"
  "r_seed (demo_round st n h t p) = utf16 ''s1''"
  "r_nonce (demo_round st n h t p) = n"
  "r_hand (demo_round st n h t p) = h"
  "r_total (demo_round st n h t p) = t"
  "r_points (demo_round st n h t p) = p"
  by (simp_all add: demo_round_def)

lemma demo_db_fields:
  "gameRound (demo_db r w) ''r1'' = Some r"
  "gameWallet (demo_db r w) ''u1'' = w"
  "roundLog (demo_db r w) = []"
  by (simp_all add: demo_db_def)

lemma demo_request_fields:
  "session (demo_hit e) = Some ''u1''"
  "json (demo_hit e) = Some \<lparr> b_roundId = Some ''r1'', b_expectedNonce = e \<rparr>"
  "session demo_stand = Some ''u1''"
  "json demo_stand = Some \<lparr> b_roundId = Some ''r1'' \<rparr>"
  by (simp_all add: demo_hit_def demo_stand_def)

lemma nextAvailable_demo_drift:
  "nextAvailable (createShuffledDeck (utf16 ''s1'') 0) [''6H''] 1 = (Some ''6D'', 2)"
  by (simp add: nextAvailable_def createShuffledDeck_s1 at_index_def has_def falsy_def
      scan_step scan_found)

lemma calculateBestTotal_6H_6D: "calculateBestTotal [''6H'', ''6D''] = Some (12, False)"
  by (simp add: calculateBestTotal_def card_eval upgrade_loop_stop)

lemma hit_demo_drift:
  "hit_POST demo_env (demo_hit None) (demo_db (demo_round PLAYING 1 [''6H''] 6 0) None) =
     Some ((200, State \<lparr> g_roundId = ''r1'', g_state = Playing, g_seed = utf16 ''s1'',
                           g_nonce = 2, g_hand = [''6H'', ''6D''], g_total = 12,
                           g_pointsLastRound = 0, g_balance = 0 \<rparr>),
           (demo_db (demo_round PLAYING 1 [''6H''] 6 0) None)
             \<lparr> gameRound := [''r1'' \<mapsto> (demo_round PLAYING 2 [''6H'', ''6D''] 12 0)
                                         \<lparr> r_updatedAt := 2000 \<rparr>],
               roundLog := [\<lparr> l_id = ''log_b2'', l_roundId = ''r1'', l_action = ''hit'',
                               l_card = Some ''6D'', l_nonce = Some 2,
                               l_totalAfter = Some 12, l_createdAt = 2000 \<rparr>] \<rparr>)"
proof -
  let ?r = "demo_round PLAYING 1 [''6H''] 6 0"
  let ?s = "demo_db ?r None"
  have "hit_POST demo_env (demo_hit None) ?s = hit_apply demo_env ''u1'' ''r1'' ?r ?s"
    by (rule hit_POST_accepted
          [where b = "\<lparr> b_roundId = Some ''r1'', b_expectedNonce = None \<rparr>"])
       (simp_all add: demo_defs)
  also have "\<dots> = Some (respond 200 State
             (toApiState ''r1'' (hit_update (e_now demo_env) ?r (r_hand ?r @ [''6D'']) 12)
                (balanceOr0 ?s ''u1'')),
           ?s \<lparr> gameRound := (gameRound ?s)(''r1'' \<mapsto>
                    hit_update (e_now demo_env) ?r (r_hand ?r @ [''6D'']) 12),
               roundLog := roundLog ?s @ [hit_log demo_env ''r1'' ?r (Some ''6D'') 12] \<rparr>)"
    by (rule hit_apply_deal [where k = 2 and soft = False])
       (simp_all add: demo_round_def nextAvailable_demo_drift calculateBestTotal_6H_6D)
  also have "\<dots> = Some ((200, State \<lparr> g_roundId = ''r1'', g_state = Playing, g_seed = utf16 ''s1'',
                           g_nonce = 2, g_hand = [''6H'', ''6D''], g_total = 12,
                           g_pointsLastRound = 0, g_balance = 0 \<rparr>),
           ?s \<lparr> gameRound := [''r1'' \<mapsto> (demo_round PLAYING 2 [''6H'', ''6D''] 12 0)
                                         \<lparr> r_updatedAt := 2000 \<rparr>],
               roundLog := [\<lparr> l_id = ''log_b2'', l_roundId = ''r1'', l_action = ''hit'',
                               l_card = Some ''6D'', l_nonce = Some 2,
                               l_totalAfter = Some 12, l_createdAt = 2000 \<rparr>] \<rparr>)"
    by (simp add: demo_defs hit_update_def hit_log_def isBust_def balanceOr0_def respond_def
        toApiState_def assertCardCodes_def card_eval)
  finally show ?thesis .
qed

theorem hit_never_deals_duplicate_witness:
  "session (demo_hit None) = Some ''u1''
   \<and> json (demo_hit None) = Some \<lparr> b_roundId = Some ''r1'', b_expectedNonce = None \<rparr>
   \<and> gameRound (demo_db (demo_round PLAYING 1 [''6H''] 6 0) None) ''r1''
        = Some (demo_round PLAYING 1 [''6H''] 6 0)
   \<and> r_userId (demo_round PLAYING 1 [''6H''] 6 0) = ''u1''
   \<and> r_state (demo_round PLAYING 1 [''6H''] 6 0) = PLAYING
   \<and> at_index (createShuffledDeck (utf16 ''s1'') 0) 1 = Some ''6H''
   \<and> fst (the (hit_POST demo_env (demo_hit None)
                 (demo_db (demo_round PLAYING 1 [''6H''] 6 0) None)))
        = (200, State \<lparr> g_roundId = ''r1'', g_state = Playing, g_seed = utf16 ''s1'',
                         g_nonce = 2, g_hand = [''6H'', ''6D''], g_total = 12,
                         g_pointsLastRound = 0, g_balance = 0 \<rparr>)
   \<and> ''6D'' \<notin> set [''6H'']
   \<and> set (createShuffledDeck (utf16 ''s1'') 0) \<subseteq> set buildDeck
   \<and> hit_POST demo_env (demo_hit None) (demo_db (demo_round PLAYING 52 buildDeck 340 0) None)
        = Some ((410, Error ''Deck exhausted. Start a new round.''),
                demo_db (demo_round PLAYING 52 buildDeck 340 0) None)"
proof -
  have hyps: "session (demo_hit None) = Some ''u1''"
    "json (demo_hit None) = Some \<lparr> b_roundId = Some ''r1'', b_expectedNonce = None \<rparr>"
    "b_roundId \<lparr> b_roundId = Some ''r1'', b_expectedNonce = None \<rparr> = Some ''r1''"
    "''r1'' \<noteq> []"
    by (simp_all add: demo_defs)
  have rnd: "gameRound (demo_db rnd None) ''r1'' = Some rnd" for rnd
    by (simp add: demo_defs)
  have play: "r_userId (demo_round PLAYING n h t p) = ''u1''"
    "r_state (demo_round PLAYING n h t p) = PLAYING"
    "r_seed (demo_round PLAYING n h t p) = utf16 ''s1''"
    "r_hand (demo_round PLAYING n h t p) = h" for n h t p
    by (simp_all add: demo_defs)
  have nonce: "b_expectedNonce \<lparr> b_roundId = Some ''r1'', b_expectedNonce = None \<rparr> = None
      \<or> b_expectedNonce \<lparr> b_roundId = Some ''r1'', b_expectedNonce = None \<rparr> = Some n" for n
    by simp
  have full: "set (createShuffledDeck (utf16 ''s1'') 0) \<subseteq> set buildDeck"
    by (simp add: set_createShuffledDeck)
  from hit_never_deals_duplicate [OF hyps rnd [of "demo_round PLAYING 52 buildDeck 340 0"]
      play(1,2) nonce, where env = demo_env] full
  have "hit_POST demo_env (demo_hit None) (demo_db (demo_round PLAYING 52 buildDeck 340 0) None)
        = Some ((410, Error ''Deck exhausted. Start a new round.''),
                demo_db (demo_round PLAYING 52 buildDeck 340 0) None)"
    by (simp add: play)
  with hyps rnd play full show ?thesis
    by (simp add: hit_demo_drift createShuffledDeck_s1 at_index_def)
qed

lemma nextAvailable_demo_sync:
  "nextAvailable (createShuffledDeck (utf16 ''s1'') 0) [''4S''] 1 = (Some ''6H'', 1)"
  by (simp add: nextAvailable_def createShuffledDeck_s1 at_index_def has_def falsy_def)

lemma calculateBestTotal_4S_6H: "calculateBestTotal [''4S'', ''6H''] = Some (10, False)"
  by (simp add: calculateBestTotal_def card_eval upgrade_loop_stop)

lemma calculateBestTotal_4S: "calculateBestTotal [''4S''] = Some (4, False)"
  by (simp add: calculateBestTotal_def card_eval upgrade_loop_stop)

lemma hit_demo_sync:
  "hit_POST demo_env (demo_hit (Some 1)) (demo_db (demo_round PLAYING 1 [''4S''] 4 0) None) =
     Some ((200, State \<lparr> g_roundId = ''r1'', g_state = Playing, g_seed = utf16 ''s1'',
                           g_nonce = 2, g_hand = [''4S'', ''6H''], g_total = 10,
                           g_pointsLastRound = 0, g_balance = 0 \<rparr>),
           (demo_db (demo_round PLAYING 1 [''4S''] 4 0) None)
             \<lparr> gameRound := [''r1'' \<mapsto> (demo_round PLAYING 2 [''4S'', ''6H''] 10 0)
                                         \<lparr> r_updatedAt := 2000 \<rparr>],
               roundLog := [\<lparr> l_id = ''log_b2'', l_roundId = ''r1'', l_action = ''hit'',
                               l_card = Some ''6H'', l_nonce = Some 2,
                               l_totalAfter = Some 10, l_createdAt = 2000 \<rparr>] \<rparr>)"
proof -
  let ?r = "demo_round PLAYING 1 [''4S''] 4 0"
  let ?s = "demo_db ?r None"
  have "hit_POST demo_env (demo_hit (Some 1)) ?s = hit_apply demo_env ''u1'' ''r1'' ?r ?s"
    by (rule hit_POST_accepted
          [where b = "\<lparr> b_roundId = Some ''r1'', b_expectedNonce = Some 1 \<rparr>"])
       (simp_all add: demo_defs)
  also have "\<dots> = Some (respond 200 State
             (toApiState ''r1'' (hit_update (e_now demo_env) ?r (r_hand ?r @ [''6H'']) 10)
                (balanceOr0 ?s ''u1'')),
           ?s \<lparr> gameRound := (gameRound ?s)(''r1'' \<mapsto>
                    hit_update (e_now demo_env) ?r (r_hand ?r @ [''6H'']) 10),
               roundLog := roundLog ?s @ [hit_log demo_env ''r1'' ?r (Some ''6H'') 10] \<rparr>)"
    by (rule hit_apply_deal [where k = 1 and soft = False])
       (simp_all add: demo_round_def nextAvailable_demo_sync calculateBestTotal_4S_6H)
  also have "\<dots> = Some ((200, State \<lparr> g_roundId = ''r1'', g_state = Playing, g_seed = utf16 ''s1'',
                           g_nonce = 2, g_hand = [''4S'', ''6H''], g_total = 10,
                           g_pointsLastRound = 0, g_balance = 0 \<rparr>),
           ?s \<lparr> gameRound := [''r1'' \<mapsto> (demo_round PLAYING 2 [''4S'', ''6H''] 10 0)
                                         \<lparr> r_updatedAt := 2000 \<rparr>],
               roundLog := [\<lparr> l_id = ''log_b2'', l_roundId = ''r1'', l_action = ''hit'',
                               l_card = Some ''6H'', l_nonce = Some 2,
                               l_totalAfter = Some 10, l_createdAt = 2000 \<rparr>] \<rparr>)"
    by (simp add: demo_defs hit_update_def hit_log_def isBust_def balanceOr0_def respond_def
        toApiState_def assertCardCodes_def card_eval)
  finally show ?thesis .
qed

lemma initRound_demo:
  "initRound ''r1'' 1000 1001 \<lparr> p_seed = utf16 ''s1'', p_nonce = None, p_dealOne = Some True \<rparr>
     = Some (Inr \<lparr> i_roundId = ''r1'', i_state = Playing, i_seed = utf16 ''s1'', i_nonce = 1,
                   i_hand = [''4S''], i_total = 4,
                   i_deckLeft = tl (createShuffledDeck (utf16 ''s1'') 0),
                   i_logs = [\<lparr> le_roundId = ''r1'', le_action = ''start'', le_card = None,
                                le_totalAfter = None, le_nonce = Some 0, le_timestamp = 1000 \<rparr>,
                             \<lparr> le_roundId = ''r1'', le_action = ''hit'', le_card = Some ''4S'',
                                le_totalAfter = Some 4, le_nonce = Some 1,
                                le_timestamp = 1001 \<rparr>] \<rparr>)"
  by (simp add: initRound_def drawCard_def createShuffledDeck_s1 calculateBestTotal_4S)

theorem hit_deals_deck_at_nonce_witness:
  "session (demo_hit (Some 1)) = Some ''u1''
   \<and> json (demo_hit (Some 1)) = Some \<lparr> b_roundId = Some ''r1'', b_expectedNonce = Some 1 \<rparr>
   \<and> gameRound (demo_db (demo_round PLAYING 1 [''4S''] 4 0) None) ''r1''
        = Some (demo_round PLAYING 1 [''4S''] 4 0)
   \<and> r_userId (demo_round PLAYING 1 [''4S''] 4 0) = ''u1''
   \<and> r_state (demo_round PLAYING 1 [''4S''] 4 0) = PLAYING
   \<and> r_nonce (demo_round PLAYING 1 [''4S''] 4 0) = 1
   \<and> r_hand (demo_round PLAYING 1 [''4S''] 4 0)
        = take (nat 1) (createShuffledDeck (utf16 ''s1'') 0)
   \<and> createShuffledDeck (utf16 ''s1'') 0 ! 0 = ''4S''
   \<and> createShuffledDeck (utf16 ''s1'') 0 ! 1 = ''6H''
   \<and> fst (the (hit_POST demo_env (demo_hit (Some 1))
                 (demo_db (demo_round PLAYING 1 [''4S''] 4 0) None)))
        = (200, State \<lparr> g_roundId = ''r1'', g_state = Playing, g_seed = utf16 ''s1'',
                         g_nonce = 2, g_hand = [''4S'', ''6H''], g_total = 10,
                         g_pointsLastRound = 0, g_balance = 0 \<rparr>)
   \<and> (\<exists>ir. initRound ''r1'' 1000 1001
               \<lparr> p_seed = utf16 ''s1'', p_nonce = None, p_dealOne = Some True \<rparr> = Some (Inr ir)
          \<and> i_hand ir = [''4S''] \<and> i_nonce ir = 1)"
proof -
  have hyps: "session (demo_hit (Some 1)) = Some ''u1''"
    "json (demo_hit (Some 1)) = Some \<lparr> b_roundId = Some ''r1'', b_expectedNonce = Some 1 \<rparr>"
    "b_roundId \<lparr> b_roundId = Some ''r1'', b_expectedNonce = Some 1 \<rparr> = Some ''r1''"
    "''r1'' \<noteq> []"
    "gameRound (demo_db (demo_round PLAYING 1 [''4S''] 4 0) None) ''r1''
        = Some (demo_round PLAYING 1 [''4S''] 4 0)"
    "r_userId (demo_round PLAYING 1 [''4S''] 4 0) = ''u1''"
    "r_state (demo_round PLAYING 1 [''4S''] 4 0) = PLAYING"
    "b_expectedNonce \<lparr> b_roundId = Some ''r1'', b_expectedNonce = Some 1 \<rparr> = None
      \<or> b_expectedNonce \<lparr> b_roundId = Some ''r1'', b_expectedNonce = Some 1 \<rparr>
          = Some (r_nonce (demo_round PLAYING 1 [''4S''] 4 0))"
    "0 \<le> r_nonce (demo_round PLAYING 1 [''4S''] 4 0)"
    "r_nonce (demo_round PLAYING 1 [''4S''] 4 0) < 52"
    "r_hand (demo_round PLAYING 1 [''4S''] 4 0)
        = take (nat (r_nonce (demo_round PLAYING 1 [''4S''] 4 0)))
            (createShuffledDeck (r_seed (demo_round PLAYING 1 [''4S''] 4 0)) 0)"
    by (simp_all add: demo_round_fields demo_db_fields demo_request_fields
        createShuffledDeck_s1)
  from hit_deals_deck_at_nonce [OF hyps, of demo_env "''r1''" 1000 1001 "utf16 ''s1''"] hyps
  show ?thesis
    by (simp add: hit_demo_sync createShuffledDeck_s1 initRound_demo demo_round_fields)
qed

lemma calculatePoints_10: "calculatePoints 10 = 47"
  by (simp add: calculatePoints_small)

lemma stand_demo:
  "stand_POST demo_env demo_stand (demo_db (demo_round PLAYING 2 [''4S'', ''6H''] 10 0) None) =
     Some ((200, State \<lparr> g_roundId = ''r1'', g_state = Finished, g_seed = utf16 ''s1'',
                           g_nonce = 2, g_hand = [''4S'', ''6H''], g_total = 10,
                           g_pointsLastRound = 47, g_balance = 47 \<rparr>),
           \<lparr> gameRound = [''r1'' \<mapsto> (demo_round FINISHED 2 [''4S'', ''6H''] 10 47)
                                      \<lparr> r_finishedAt := Some 2000, r_updatedAt := 2000 \<rparr>],
             gameWallet = [''u1'' \<mapsto> \<lparr> w_id = ''wal_w1'', w_balance = 47,
                                       w_createdAt = 1500, w_updatedAt = 2000 \<rparr>],
             roundLog = [\<lparr> l_id = ''log_b2'', l_roundId = ''r1'', l_action = ''stand'',
                            l_card = None, l_nonce = Some 2, l_totalAfter = Some 10,
                            l_createdAt = 2000 \<rparr>] \<rparr>)"
proof -
  let ?r = "demo_round PLAYING 2 [''4S'', ''6H''] 10 0"
  let ?s = "demo_db ?r None"
  let ?w = "newWallet demo_env"
  let ?s1 = "?s \<lparr> gameWallet := (gameWallet ?s)(''u1'' \<mapsto> ?w) \<rparr>"
  let ?l = "\<lparr> st_userId = ''u1'', st_rid = ''r1'', st_round = ?r, st_wallet = ?w,
              st_total = 10, st_points = calculatePoints 10 \<rparr>"
  have ens: "ensureWallet demo_env ''u1'' ?s = (?w, ?s1)"
    by (rule ensureWallet_None) (simp add: demo_db_fields)
  have prep: "stand_prepare demo_env demo_stand ?s = Some (Inr ?l, ?s1)"
    by (rule stand_prepare_playing [where b = "\<lparr> b_roundId = Some ''r1'' \<rparr>" and soft = False])
       (simp_all add: demo_request_fields demo_db_fields demo_round_fields card_eval
          calculateBestTotal_4S_6H ens)
  have tx: "stand_transaction demo_env ?l ?s1 =
      (Inr (True, stand_update (e_now demo_env) ?r 10 47,
            ?w \<lparr> w_balance := w_balance ?w + 47, w_updatedAt := e_now demo_env \<rparr>),
       ?s1 \<lparr> gameRound := (gameRound ?s1)(''r1'' \<mapsto> stand_update (e_now demo_env) ?r 10 47),
             roundLog := roundLog ?s1 @ [stand_log demo_env ?l],
             gameWallet := (gameWallet ?s1)
               (''u1'' \<mapsto> ?w \<lparr> w_balance := w_balance ?w + 47, w_updatedAt := e_now demo_env \<rparr>) \<rparr>)"
    using stand_transaction_finalize [of ?s1 ?l ?r demo_env]
    by (simp add: demo_db_fields demo_round_fields calculatePoints_10)
  have "stand_POST demo_env demo_stand ?s =
      Some (stand_respond ''r1''
              (Inr (True, stand_update (e_now demo_env) ?r 10 47,
                    ?w \<lparr> w_balance := w_balance ?w + 47, w_updatedAt := e_now demo_env \<rparr>)),
       ?s1 \<lparr> gameRound := (gameRound ?s1)(''r1'' \<mapsto> stand_update (e_now demo_env) ?r 10 47),
             roundLog := roundLog ?s1 @ [stand_log demo_env ?l],
             gameWallet := (gameWallet ?s1)
               (''u1'' \<mapsto> ?w \<lparr> w_balance := w_balance ?w + 47, w_updatedAt := e_now demo_env \<rparr>) \<rparr>)"
    by (simp add: stand_POST_def prep tx)
  then show ?thesis
    by (simp add: stand_respond_def respond_def toApiState_def assertCardCodes_def card_eval
        stand_update_def stand_log_def newWallet_def calculatePoints_10 demo_defs)
qed

theorem stand_finalizes_and_credits_witness:
  "session demo_stand = Some ''u1''
   \<and> json demo_stand = Some \<lparr> b_roundId = Some ''r1'' \<rparr>
   \<and> gameRound (demo_db (demo_round PLAYING 2 [''4S'', ''6H''] 10 0) None) ''r1''
        = Some (demo_round PLAYING 2 [''4S'', ''6H''] 10 0)
   \<and> r_userId (demo_round PLAYING 2 [''4S'', ''6H''] 10 0) = ''u1''
   \<and> r_state (demo_round PLAYING 2 [''4S'', ''6H''] 10 0) = PLAYING
   \<and> list_all isCardCode (r_hand (demo_round PLAYING 2 [''4S'', ''6H''] 10 0))
   \<and> calculateBestTotal [''4S'', ''6H''] = Some (10, False)
   \<and> calculatePoints 10 = 47
   \<and> fst (the (stand_POST demo_env demo_stand
                 (demo_db (demo_round PLAYING 2 [''4S'', ''6H''] 10 0) None)))
        = (200, State \<lparr> g_roundId = ''r1'', g_state = Finished, g_seed = utf16 ''s1'',
                         g_nonce = 2, g_hand = [''4S'', ''6H''], g_total = 10,
                         g_pointsLastRound = 47, g_balance = 47 \<rparr>)
   \<and> balanceOr0 (demo_db (demo_round PLAYING 2 [''4S'', ''6H''] 10 0) None) ''u1'' = 0
   \<and> balanceOr0 (snd (the (stand_POST demo_env demo_stand
                 (demo_db (demo_round PLAYING 2 [''4S'', ''6H''] 10 0) None)))) ''u1'' = 47
   \<and> updateBalance 0 47 = 47"
proof -
  have hyps: "session demo_stand = Some ''u1''"
    "json demo_stand = Some \<lparr> b_roundId = Some ''r1'' \<rparr>"
    "b_roundId \<lparr> b_roundId = Some ''r1'' \<rparr> = Some ''r1''"
    "''r1'' \<noteq> []"
    "gameRound (demo_db (demo_round PLAYING 2 [''4S'', ''6H''] 10 0) None) ''r1''
        = Some (demo_round PLAYING 2 [''4S'', ''6H''] 10 0)"
    "r_userId (demo_round PLAYING 2 [''4S'', ''6H''] 10 0) = ''u1''"
    "r_state (demo_round PLAYING 2 [''4S'', ''6H''] 10 0) = PLAYING"
    "list_all isCardCode (r_hand (demo_round PLAYING 2 [''4S'', ''6H''] 10 0))"
    by (simp_all add: demo_round_fields demo_db_fields demo_request_fields card_eval)
  from stand_finalizes_and_credits [OF hyps, of demo_env] hyps
  show ?thesis
    by (simp add: stand_demo calculateBestTotal_4S_6H calculatePoints_10 balanceOr0_def
        demo_db_fields updateBalance_def demo_round_fields)
qed

lemma conflict_leaves_round_unchanged_example:
  "session (demo_hit (Some 1)) = Some ''u1''
   \<and> json (demo_hit (Some 1)) = Some \<lparr> b_roundId = Some ''r1'', b_expectedNonce = Some 1 \<rparr>
   \<and> session demo_stand = Some ''u1''
   \<and> json demo_stand = Some \<lparr> b_roundId = Some ''r1'' \<rparr>
   \<and> list_all isCardCode [''4S'', ''6H'']
   \<and> r_state (demo_round FINISHED 2 [''4S'', ''6H''] 10 47) \<noteq> PLAYING
   \<and> hit_POST demo_env (demo_hit (Some 1))
        (demo_db (demo_round FINISHED 2 [''4S'', ''6H''] 10 47) (Some (demo_wallet 100)))
      = Some ((409, State \<lparr> g_roundId = ''r1'', g_state = Finished, g_seed = utf16 ''s1'',
                            g_nonce = 2, g_hand = [''4S'', ''6H''], g_total = 10,
                            g_pointsLastRound = 47, g_balance = 100 \<rparr>),
              demo_db (demo_round FINISHED 2 [''4S'', ''6H''] 10 47) (Some (demo_wallet 100)))
   \<and> stand_POST demo_env demo_stand
        (demo_db (demo_round FINISHED 2 [''4S'', ''6H''] 10 47) (Some (demo_wallet 100)))
      = Some ((409, State \<lparr> g_roundId = ''r1'', g_state = Finished, g_seed = utf16 ''s1'',
                            g_nonce = 2, g_hand = [''4S'', ''6H''], g_total = 10,
                            g_pointsLastRound = 47, g_balance = 100 \<rparr>),
              demo_db (demo_round FINISHED 2 [''4S'', ''6H''] 10 47) (Some (demo_wallet 100)))
   \<and> r_state (demo_round PLAYING 2 [''4S'', ''6H''] 10 0) = PLAYING
   \<and> (1::int) \<noteq> r_nonce (demo_round PLAYING 2 [''4S'', ''6H''] 10 0)
   \<and> hit_POST demo_env (demo_hit (Some 1))
        (demo_db (demo_round PLAYING 2 [''4S'', ''6H''] 10 0) (Some (demo_wallet 100)))
      = Some ((409, ErrorCurrent ''Round changed since client last sync''
                      \<lparr> g_roundId = ''r1'', g_state = Playing, g_seed = utf16 ''s1'',
                        g_nonce = 2, g_hand = [''4S'', ''6H''], g_total = 10,
                        g_pointsLastRound = 0, g_balance = 100 \<rparr>),
              demo_db (demo_round PLAYING 2 [''4S'', ''6H''] 10 0) (Some (demo_wallet 100)))"
proof -
  have req: "session (demo_hit (Some 1)) = Some ''u1''"
    "json (demo_hit (Some 1)) = Some \<lparr> b_roundId = Some ''r1'', b_expectedNonce = Some 1 \<rparr>"
    "b_roundId \<lparr> b_roundId = Some ''r1'', b_expectedNonce = Some 1 \<rparr> = Some ''r1''"
    "session demo_stand = Some ''u1''"
    "json demo_stand = Some \<lparr> b_roundId = Some ''r1'' \<rparr>"
    "b_roundId \<lparr> b_roundId = Some ''r1'' \<rparr> = Some ''r1''"
    "''r1'' \<noteq> []"
    by (simp_all add: demo_request_fields)
  have rnd: "gameRound (demo_db (demo_round st 2 [''4S'', ''6H''] 10 p) (Some (demo_wallet 100))) ''r1''
      = Some (demo_round st 2 [''4S'', ''6H''] 10 p)"
    "r_userId (demo_round st 2 [''4S'', ''6H''] 10 p) = ''u1''"
    "list_all isCardCode (r_hand (demo_round st 2 [''4S'', ''6H''] 10 p))" for st p
    by (simp_all add: demo_round_fields demo_db_fields card_eval)
  have snap: "toApiState ''r1'' (demo_round st 2 [''4S'', ''6H''] 10 p) bal =
      Inr \<lparr> g_roundId = ''r1'', g_state = fromPrismaRoundState st, g_seed = utf16 ''s1'',
            g_nonce = 2, g_hand = [''4S'', ''6H''], g_total = 10,
            g_pointsLastRound = (if st = FINISHED \<or> st = BUST then p else 0),
            g_balance = bal \<rparr>" for st p bal
    using toApiState_valid [OF rnd(3), of "''r1''" st p bal]
    by (simp add: demo_round_fields)
  have bal: "balanceOr0 (demo_db r (Some (demo_wallet 100))) ''u1'' = 100" for r
    by (simp add: balanceOr0_def demo_db_fields demo_wallet_def)
  have wal: "gameWallet (demo_db r (Some (demo_wallet 100))) ''u1'' \<noteq> None" for r
    by (simp add: demo_db_fields)
  from conflict_leaves_round_unchanged [OF req rnd, of FINISHED 47 demo_env]
    conflict_leaves_round_unchanged [OF req rnd, of PLAYING 0 demo_env]
  show ?thesis
    by (simp add: snap bal wal demo_round_fields req card_eval)
qed

theorem hit_stand_frame_witness:
  "hit_POST demo_env (demo_hit (Some 1)) (demo_db (demo_round PLAYING 1 [''4S''] 4 0) None)
     \<noteq> None
   \<and> gameRound (demo_db (demo_round PLAYING 1 [''4S''] 4 0) None) ''r1''
        = Some (demo_round PLAYING 1 [''4S''] 4 0)
   \<and> r_seed (the (gameRound (snd (the (hit_POST demo_env (demo_hit (Some 1))
          (demo_db (demo_round PLAYING 1 [''4S''] 4 0) None)))) ''r1''))
        = r_seed (demo_round PLAYING 1 [''4S''] 4 0)
   \<and> r_hand (the (gameRound (snd (the (hit_POST demo_env (demo_hit (Some 1))
          (demo_db (demo_round PLAYING 1 [''4S''] 4 0) None)))) ''r1''))
        = [''4S'', ''6H'']
   \<and> stand_POST demo_env demo_stand (demo_db (demo_round PLAYING 2 [''4S'', ''6H''] 10 0) None)
     \<noteq> None
   \<and> gameRound (demo_db (demo_round PLAYING 2 [''4S'', ''6H''] 10 0) None) ''r1''
        = Some (demo_round PLAYING 2 [''4S'', ''6H''] 10 0)
   \<and> r_seed (the (gameRound (snd (the (stand_POST demo_env demo_stand
          (demo_db (demo_round PLAYING 2 [''4S'', ''6H''] 10 0) None)))) ''r1''))
        = r_seed (demo_round PLAYING 2 [''4S'', ''6H''] 10 0)
   \<and> r_nonce (the (gameRound (snd (the (stand_POST demo_env demo_stand
          (demo_db (demo_round PLAYING 2 [''4S'', ''6H''] 10 0) None)))) ''r1'')) = 2
   \<and> r_hand (the (gameRound (snd (the (stand_POST demo_env demo_stand
          (demo_db (demo_round PLAYING 2 [''4S'', ''6H''] 10 0) None)))) ''r1''))
        = [''4S'', ''6H'']
   \<and> r_state (the (gameRound (snd (the (stand_POST demo_env demo_stand
          (demo_db (demo_round PLAYING 2 [''4S'', ''6H''] 10 0) None)))) ''r1'')) = FINISHED"
  using hit_stand_frame [of demo_env "demo_hit (Some 1)"
      "demo_db (demo_round PLAYING 1 [''4S''] 4 0) None" _ _ "''r1''"
      "demo_round PLAYING 1 [''4S''] 4 0"]
    hit_stand_frame [of demo_env _ "demo_db (demo_round PLAYING 2 [''4S'', ''6H''] 10 0) None"
      _ _ "''r1''" "demo_round PLAYING 2 [''4S'', ''6H''] 10 0" demo_stand]
  by (simp add: hit_demo_sync stand_demo demo_db_fields demo_round_fields)

section \<open>Interleavings of two stand requests\<close>

text \<open>One request stepping alone is the handler.\<close>

lemma stand_steps_alone:
  "stand_race (env, req) other [First, First, First, First] (Started, cb, s) =
     (case stand_POST env req s of
        None \<Rightarrow> None
      | Some (resp, s') \<Rightarrow> Some (Answered resp, cb, s'))"
  by (auto simp: stand_step_def stand_POST_def stand_prepare_def stand_check_def
      stand_continue_def ensureWallet_def createWallet_def Let_def
      split: sum.splits option.splits prod.splits)

lemma stand_load_found:
  assumes "session req = Some u" "json req = Some b" "b_roundId b = Some rid" "rid \<noteq> []"
    and "gameRound s rid = Some r" "r_userId r = u"
  shows "stand_load req s = Inr (u, rid, r)"
proof -
  from assms have "findRound s rid u = Some r" by (simp add: findRound_Some)
  with assms show ?thesis by (simp add: stand_load_def)
qed

lemma stand_continue_playing:
  assumes "r_state r = PLAYING" "list_all isCardCode (r_hand r)"
    "calculateBestTotal (r_hand r) = Some (tot, soft)"
  shows "stand_continue (u, rid, r) w =
     Some (Ready \<lparr> st_userId = u, st_rid = rid, st_round = r, st_wallet = w, st_total = tot,
                   st_points = calculatePoints tot \<rparr>)"
  using assms by (simp add: stand_continue_def stand_decide_def assertCardCodes_valid)

lemma stand_continue_not_playing:
  assumes "r_state r \<noteq> PLAYING"
  shows "stand_continue (u, rid, r) w =
     Some (Answered (respond 409 State (toApiState rid r (w_balance w))))"
  using assms by (simp add: stand_continue_def stand_decide_def)

lemma stand_transaction_lost:
  assumes "gameRound s (st_rid l) = Some cur" "r_state cur \<noteq> PLAYING"
    "gameWallet s (st_userId l) = Some w"
  shows "stand_transaction env l s = (Inr (False, cur, w), s)"
  using assms by (simp add: stand_transaction_def)

text \<open>
  The steps of a stand request for a playing round of a user who has a wallet, before
  and after the round has been finalized by a request with the environment \<open>W\<close>.
\<close>

lemma stand_race_outcome:
  assumes a: "session reqA = Some u" "json reqA = Some ba" "b_roundId ba = Some rid"
    and b: "session reqB = Some u" "json reqB = Some bb" "b_roundId bb = Some rid"
    and rid: "rid \<noteq> []"
    and r: "gameRound s rid = Some r" "r_userId r = u" "r_state r = PLAYING"
    and valid: "list_all isCardCode (r_hand r)"
    and tot: "calculateBestTotal (r_hand r) = Some (tot, soft)"
    and w: "gameWallet s u = Some w"
    and sched: "sched \<in> shuffles [First, First, First, First] [Second, Second, Second, Second]"
  defines "l0 \<equiv> \<lparr> st_userId = u, st_rid = rid, st_round = r, st_wallet = w, st_total = tot,
                   st_points = calculatePoints tot \<rparr>"
  defines "wF \<equiv> \<lambda>W. if 0 < calculatePoints tot
                     then w \<lparr> w_balance := w_balance w + calculatePoints tot, w_updatedAt := e_now W \<rparr>
                     else w"
  defines "rF \<equiv> \<lambda>W. stand_update (e_now W) r tot (calculatePoints tot)"
  defines "sF \<equiv> \<lambda>W. s \<lparr> gameRound := (gameRound s)(rid \<mapsto> rF W),
                          roundLog := roundLog s @ [stand_log W l0],
                          gameWallet := (gameWallet s)(u \<mapsto> wF W) \<rparr>"
  defines "snapF \<equiv> \<lambda>W. \<lparr> g_roundId = rid, g_state = Finished, g_seed = r_seed r,
                            g_nonce = r_nonce r, g_hand = r_hand r, g_total = tot,
                            g_pointsLastRound = calculatePoints tot,
                            g_balance = w_balance (wF W) \<rparr>"
  shows "stand_POST envA reqA s = Some ((200, State (snapF envA)), sF envA)
     \<and> stand_POST envB reqB s = Some ((200, State (snapF envB)), sF envB)
     \<and> (stand_race (envA, reqA) (envB, reqB) sched (Started, Started, s)
          = Some (Answered (200, State (snapF envA)), Answered (409, State (snapF envA)), sF envA)
        \<or> stand_race (envA, reqA) (envB, reqB) sched (Started, Started, s)
          = Some (Answered (409, State (snapF envB)), Answered (200, State (snapF envB)), sF envB))"
proof -
  have snap: "toApiState rid (rF W) (w_balance (wF W)) = Inr (snapF W)" for W
    using toApiState_valid [where r = "rF W" and rid = rid and bal = "w_balance (wF W)"] valid
    by (simp add: rF_def snapF_def stand_update_fields)
  have fin: "gameRound (sF W) rid = Some (rF W)" "r_state (rF W) \<noteq> PLAYING"
    "gameWallet (sF W) u = Some (wF W)" "r_userId (rF W) = u" for W
    using r by (simp_all add: sF_def rF_def stand_update_fields)
  have l0: "st_rid l0 = rid" "st_userId l0 = u" "st_wallet l0 = w" "st_round l0 = r"
    "st_total l0 = tot" "st_points l0 = calculatePoints tot"
    by (simp_all add: l0_def)
  have load0: "stand_step E reqA Started s = Some (Loaded (u, rid, r), s)"
    "stand_step E reqB Started s = Some (Loaded (u, rid, r), s)" for E
    using stand_load_found [OF a rid r(1,2)] stand_load_found [OF b rid r(1,2)]
    by (simp_all add: stand_step_def)
  have loadF: "stand_step E reqA Started (sF W) = Some (Loaded (u, rid, rF W), sF W)"
    "stand_step E reqB Started (sF W) = Some (Loaded (u, rid, rF W), sF W)" for E W
    using stand_load_found [OF a rid fin(1,4)] stand_load_found [OF b rid fin(1,4)]
    by (simp_all add: stand_step_def)
  have check0: "stand_step E req (Loaded (u, rid, r)) s = Some (Ready l0, s)" for E req
    using stand_continue_playing [OF r(3) valid tot] w
    by (simp add: stand_step_def l0_def)
  have checkF: "stand_step E req (Loaded (u, rid, r)) (sF W)
      = Some (Ready (l0 \<lparr> st_wallet := wF W \<rparr>), sF W)" for E req W
    using stand_continue_playing [OF r(3) valid tot] fin(3)
    by (simp add: stand_step_def l0_def)
  have checkFF: "stand_step E req (Loaded (u, rid, rF W)) (sF W)
      = Some (Answered (409, State (snapF W)), sF W)" for E req W
    using stand_continue_not_playing [OF fin(2), where rid = rid and W1 = W] fin(3)
    by (simp add: stand_step_def snap respond_def)
  have win: "stand_step E req (Ready l0) s = Some (Answered (200, State (snapF E)), sF E)"
    for E req
  proof -
    have "stand_transaction E l0 s =
        (Inr (True, rF E, wF E), sF E)"
      using stand_transaction_finalize [where ?s1.0 = s and l = l0 and cur = r and env = E] r w
      by (simp add: l0 sF_def rF_def wF_def fun_upd_idem)
    then show ?thesis
      by (simp add: stand_step_def stand_respond_def snap respond_def l0)
  qed
  have lost: "stand_step E req (Ready l) (sF W) = Some (Answered (409, State (snapF W)), sF W)"
    if "st_rid l = rid" "st_userId l = u" for E req l W
    using stand_transaction_lost [where s = "sF W" and l = l and cur = "rF W" and w = "wF W" and env = E] that fin
    by (simp add: stand_step_def stand_respond_def snap respond_def)
  note lost0 = lost [of l0, simplified l0, simplified]
  have lostF: "stand_step E req (Ready (l0 \<lparr> st_wallet := wF W' \<rparr>)) (sF W)
      = Some (Answered (409, State (snapF W)), sF W)" for E req W W'
    by (rule lost) (simp_all add: l0)
  have answered: "stand_step E req (Answered x) t = Some (Answered x, t)" for E req x t
    by (simp add: stand_step_def)
  note steps = load0 loadF check0 checkF checkFF win lost0 lostF answered
  have alone: "stand_POST envA reqA s = Some ((200, State (snapF envA)), sF envA)"
    "stand_POST envB reqB s = Some ((200, State (snapF envB)), sF envB)"
    using stand_steps_alone [where env = envA and req = reqA and other = "(envB, reqB)"
        and cb = Started and s = s]
      stand_steps_alone [where env = envB and req = reqB and other = "(envA, reqA)"
        and cb = Started and s = s]
    by (auto simp: steps split: option.splits)
  from sched have "stand_race (envA, reqA) (envB, reqB) sched (Started, Started, s)
          = Some (Answered (200, State (snapF envA)), Answered (409, State (snapF envA)), sF envA)
        \<or> stand_race (envA, reqA) (envB, reqB) sched (Started, Started, s)
          = Some (Answered (409, State (snapF envB)), Answered (200, State (snapF envB)), sF envB)"
    by (auto simp: steps)
  with alone show ?thesis by simp
qed

text \<open>
  The same for a user who has no wallet row. \<open>C\<close> is the environment of the request whose
  insert went through, \<open>W\<close> the environment of the request that finalized the round.
\<close>

lemma stand_race_outcome_no_wallet:
  assumes a: "session reqA = Some u" "json reqA = Some ba" "b_roundId ba = Some rid"
    and b: "session reqB = Some u" "json reqB = Some bb" "b_roundId bb = Some rid"
    and rid: "rid \<noteq> []"
    and r: "gameRound s rid = Some r" "r_userId r = u" "r_state r = PLAYING"
    and valid: "list_all isCardCode (r_hand r)"
    and tot: "calculateBestTotal (r_hand r) = Some (tot, soft)"
    and w: "gameWallet s u = None"
    and sched: "sched \<in> shuffles [First, First, First, First] [Second, Second, Second, Second]"
  defines "l0 \<equiv> \<lambda>C. \<lparr> st_userId = u, st_rid = rid, st_round = r, st_wallet = newWallet C,
                        st_total = tot, st_points = calculatePoints tot \<rparr>"
  defines "wF \<equiv> \<lambda>W C. if 0 < calculatePoints tot
                     then (newWallet C) \<lparr> w_balance := w_balance (newWallet C) + calculatePoints tot,
                                         w_updatedAt := e_now W \<rparr>
                     else newWallet C"
  defines "rF \<equiv> \<lambda>W. stand_update (e_now W) r tot (calculatePoints tot)"
  defines "sC \<equiv> \<lambda>C. s \<lparr> gameWallet := (gameWallet s)(u \<mapsto> newWallet C) \<rparr>"
  defines "sF \<equiv> \<lambda>W C. s \<lparr> gameRound := (gameRound s)(rid \<mapsto> rF W),
                            roundLog := roundLog s @ [stand_log W (l0 C)],
                            gameWallet := (gameWallet s)(u \<mapsto> wF W C) \<rparr>"
  defines "snapF \<equiv> \<lambda>W C. \<lparr> g_roundId = rid, g_state = Finished, g_seed = r_seed r,
                              g_nonce = r_nonce r, g_hand = r_hand r, g_total = tot,
                              g_pointsLastRound = calculatePoints tot,
                              g_balance = w_balance (wF W C) \<rparr>"
  shows "stand_race (envA, reqA) (envB, reqB) sched (Started, Started, s)
      \<in> {Some (Answered (200, State (snapF envA envA)), Answered (409, State (snapF envA envA)),
                sF envA envA),
          Some (Answered (200, State (snapF envA envA)), Answered internalError, sF envA envA),
          Some (Answered (200, State (snapF envA envB)), Answered (409, State (snapF envA envB)),
                sF envA envB),
          Some (Answered (409, State (snapF envB envB)), Answered (200, State (snapF envB envB)),
                sF envB envB),
          Some (Answered internalError, Answered (200, State (snapF envB envB)), sF envB envB),
          Some (Answered (409, State (snapF envB envA)), Answered (200, State (snapF envB envA)),
                sF envB envA)}"
proof -
  have snap: "toApiState rid (rF W) (w_balance (wF W C)) = Inr (snapF W C)" for W C
    using toApiState_valid [where r = "rF W" and rid = rid and bal = "w_balance (wF W C)"] valid
    by (simp add: rF_def snapF_def stand_update_fields)
  have cre: "gameRound (sC C) rid = Some r" "gameWallet (sC C) u = Some (newWallet C)" for C
    using r by (simp_all add: sC_def)
  have fin: "gameRound (sF W C) rid = Some (rF W)" "r_state (rF W) \<noteq> PLAYING"
    "gameWallet (sF W C) u = Some (wF W C)" "r_userId (rF W) = u" for W C
    using r by (simp_all add: sF_def rF_def stand_update_fields)
  have l0: "st_rid (l0 C) = rid" "st_userId (l0 C) = u" "st_wallet (l0 C) = newWallet C"
    "st_round (l0 C) = r" "st_total (l0 C) = tot" "st_points (l0 C) = calculatePoints tot" for C
    by (simp_all add: l0_def)
  have load0: "stand_step E reqA Started s = Some (Loaded (u, rid, r), s)"
    "stand_step E reqB Started s = Some (Loaded (u, rid, r), s)" for E
    using stand_load_found [OF a rid r(1,2)] stand_load_found [OF b rid r(1,2)]
    by (simp_all add: stand_step_def)
  have loadC: "stand_step E reqA Started (sC C) = Some (Loaded (u, rid, r), sC C)"
    "stand_step E reqB Started (sC C) = Some (Loaded (u, rid, r), sC C)" for E C
    using stand_load_found [OF a rid cre(1) r(2)] stand_load_found [OF b rid cre(1) r(2)]
    by (simp_all add: stand_step_def)
  have loadF: "stand_step E reqA Started (sF W C) = Some (Loaded (u, rid, rF W), sF W C)"
    "stand_step E reqB Started (sF W C) = Some (Loaded (u, rid, rF W), sF W C)" for E W C
    using stand_load_found [OF a rid fin(1,4)] stand_load_found [OF b rid fin(1,4)]
    by (simp_all add: stand_step_def)
  have find0: "stand_step E req (Loaded (u, rid, r)) s = Some (NoWallet (u, rid, r), s)"
    for E req
    using w by (simp add: stand_step_def)
  have findC: "stand_step E req (Loaded (u, rid, r)) (sC C) = Some (Ready (l0 C), sC C)"
    for E req C
    using stand_continue_playing [OF r(3) valid tot] cre(2)
    by (simp add: stand_step_def l0_def)
  have findF: "stand_step E req (Loaded (u, rid, r)) (sF W C)
      = Some (Ready ((l0 C) \<lparr> st_wallet := wF W C \<rparr>), sF W C)" for E req W C
    using stand_continue_playing [OF r(3) valid tot] fin(3)
    by (simp add: stand_step_def l0_def)
  have findFF: "stand_step E req (Loaded (u, rid, rF W)) (sF W C)
      = Some (Answered (409, State (snapF W C)), sF W C)" for E req W C
    using stand_continue_not_playing [OF fin(2), where rid = rid and W1 = W] fin(3)
    by (simp add: stand_step_def snap respond_def)
  have create0: "stand_step E req (NoWallet (u, rid, r)) s = Some (Ready (l0 E), sC E)"
    for E req
    using stand_continue_playing [OF r(3) valid tot] w
    by (simp add: stand_step_def createWallet_def l0_def sC_def Let_def)
  have createC: "stand_step E req (NoWallet (u, rid, r)) (sC C)
      = Some (Answered internalError, sC C)" for E req C
    using cre(2) by (simp add: stand_step_def createWallet_def)
  have createF: "stand_step E req (NoWallet (u, rid, r)) (sF W C)
      = Some (Answered internalError, sF W C)" for E req W C
    using fin(3) by (simp add: stand_step_def createWallet_def)
  have win: "stand_step E req (Ready (l0 C)) (sC C)
      = Some (Answered (200, State (snapF E C)), sF E C)" for E req C
  proof -
    have "stand_transaction E (l0 C) (sC C) = (Inr (True, rF E, wF E C), sF E C)"
      using stand_transaction_finalize [where ?s1.0 = "sC C" and l = "l0 C" and cur = r
          and env = E] r cre
      by (simp add: l0 sF_def sC_def rF_def wF_def)
    then show ?thesis
      by (simp add: stand_step_def stand_respond_def snap respond_def l0)
  qed
  have lost: "stand_step E req (Ready l) (sF W C)
      = Some (Answered (409, State (snapF W C)), sF W C)"
    if "st_rid l = rid" "st_userId l = u" for E req l W C
    using stand_transaction_lost [where s = "sF W C" and l = l and cur = "rF W"
        and w = "wF W C" and env = E] that fin
    by (simp add: stand_step_def stand_respond_def snap respond_def)
  have lost0: "stand_step E req (Ready (l0 C')) (sF W C)
      = Some (Answered (409, State (snapF W C)), sF W C)" for E req W C C'
    by (rule lost) (simp_all add: l0)
  have lostF: "stand_step E req (Ready ((l0 C') \<lparr> st_wallet := x \<rparr>)) (sF W C)
      = Some (Answered (409, State (snapF W C)), sF W C)" for E req W C C' x
    by (rule lost) (simp_all add: l0)
  have answered: "stand_step E req (Answered x) t = Some (Answered x, t)" for E req x t
    by (simp add: stand_step_def)
  note steps = load0 loadC loadF find0 findC findF findFF create0 createC createF win lost0
    lostF answered
  from sched show ?thesis
    by (auto simp: steps)
qed

text \<open>
  Two stand requests of the same user for the same round, which is \<open>PLAYING\<close> with a hand of
  valid card codes; their steps are interleaved in any order. Both requests answer, and
  exactly one of them answers 200, with the round \<open>FINISHED\<close>, the points of its total and
  the balance after the credit. In the store at the end the round is finalized, one audit
  row has been added and the balance has been raised once. When the user has a wallet row,
  the other request answers 409 with the same snapshot, and the store at the end is the
  one that the request answering 200 leaves when it runs alone. When the user has none,
  the other request answers 409 with the same snapshot or 500.
\<close>

lemma stand_race_finalizes_once:
  assumes "session reqA = Some u" "json reqA = Some ba" "b_roundId ba = Some rid"
    and "session reqB = Some u" "json reqB = Some bb" "b_roundId bb = Some rid"
    and "rid \<noteq> []"
    and "gameRound s rid = Some r" "r_userId r = u" "r_state r = PLAYING"
    and "list_all isCardCode (r_hand r)"
    and "sched \<in> shuffles [First, First, First, First] [Second, Second, Second, Second]"
  shows "\<exists>ra rb s' tot soft snap.
      stand_race (envA, reqA) (envB, reqB) sched (Started, Started, s)
        = Some (Answered ra, Answered rb, s')
      \<and> calculateBestTotal (r_hand r) = Some (tot, soft)
      \<and> (ra = (200, State snap)
            \<and> (rb = (409, State snap) \<or> rb = internalError \<and> gameWallet s u = None)
         \<or> rb = (200, State snap)
            \<and> (ra = (409, State snap) \<or> ra = internalError \<and> gameWallet s u = None))
      \<and> (gameWallet s u \<noteq> None \<longrightarrow>
            ra = (200, State snap) \<and> stand_POST envA reqA s = Some (ra, s')
            \<or> rb = (200, State snap) \<and> stand_POST envB reqB s = Some (rb, s'))
      \<and> (\<exists>r'. gameRound s' rid = Some r' \<and> r_state r' = FINISHED \<and> r_total r' = tot
             \<and> r_points r' = calculatePoints tot)
      \<and> balanceOr0 s' u = updateBalance (balanceOr0 s u) (calculatePoints tot)
      \<and> (\<exists>row. roundLog s' = roundLog s @ [row] \<and> l_action row = ''stand'')
      \<and> g_state snap = Finished \<and> g_total snap = tot
      \<and> g_pointsLastRound snap = calculatePoints tot
      \<and> g_balance snap = balanceOr0 s' u"
proof -
  from calculateBestTotal_Some [OF assms(11)] obtain tot soft
    where tot: "calculateBestTotal (r_hand r) = Some (tot, soft)" by blast
  let ?p = "calculatePoints tot"
  let ?race = "stand_race (envA, reqA) (envB, reqB) sched (Started, Started, s)"
  let ?round = "\<lambda>s'. \<exists>r'. gameRound s' rid = Some r' \<and> r_state r' = FINISHED \<and> r_total r' = tot
             \<and> r_points r' = ?p"
  let ?log = "\<lambda>s'. \<exists>row. roundLog s' = roundLog s @ [row] \<and> l_action row = ''stand''"
  let ?snapped = "\<lambda>snap s'. g_state snap = Finished \<and> g_total snap = tot
      \<and> g_pointsLastRound snap = ?p \<and> g_balance snap = balanceOr0 s' u"
  show ?thesis
  proof (cases "gameWallet s u")
    case (Some w)
    note outcome = stand_race_outcome [OF assms(1-11) tot Some assms(12), of envA envB]
    let ?l0 = "\<lparr> st_userId = u, st_rid = rid, st_round = r, st_wallet = w, st_total = tot,
                 st_points = ?p \<rparr>"
    let ?wF = "\<lambda>W. if 0 < ?p then w \<lparr> w_balance := w_balance w + ?p, w_updatedAt := e_now W \<rparr>
                    else w"
    let ?sF = "\<lambda>W. s \<lparr> gameRound := (gameRound s)(rid \<mapsto> stand_update (e_now W) r tot ?p),
                         roundLog := roundLog s @ [stand_log W ?l0],
                         gameWallet := (gameWallet s)(u \<mapsto> ?wF W) \<rparr>"
    let ?snap = "\<lambda>W. \<lparr> g_roundId = rid, g_state = Finished, g_seed = r_seed r,
                           g_nonce = r_nonce r, g_hand = r_hand r, g_total = tot,
                           g_pointsLastRound = ?p, g_balance = w_balance (?wF W) \<rparr>"
    have props: "?round (?sF W) \<and> balanceOr0 (?sF W) u = updateBalance (balanceOr0 s u) ?p
        \<and> ?log (?sF W) \<and> ?snapped (?snap W) (?sF W)" for W
      using Some
      by (simp add: stand_update_fields balanceOr0_def updateBalance_def stand_log_def)
    from outcome show ?thesis
    proof (elim conjE disjE)
      assume "stand_POST envA reqA s = Some ((200, State (?snap envA)), ?sF envA)"
        and "?race = Some (Answered (200, State (?snap envA)),
               Answered (409, State (?snap envA)), ?sF envA)"
      with tot props [of envA] show ?thesis
        by (intro exI [of _ "(200, State (?snap envA))"] exI [of _ "(409, State (?snap envA))"]
            exI [of _ "?sF envA"] exI [of _ tot] exI [of _ soft] exI [of _ "?snap envA"])
           simp
    next
      assume "stand_POST envB reqB s = Some ((200, State (?snap envB)), ?sF envB)"
        and "?race = Some (Answered (409, State (?snap envB)),
               Answered (200, State (?snap envB)), ?sF envB)"
      with tot props [of envB] show ?thesis
        by (intro exI [of _ "(409, State (?snap envB))"] exI [of _ "(200, State (?snap envB))"]
            exI [of _ "?sF envB"] exI [of _ tot] exI [of _ soft] exI [of _ "?snap envB"])
           simp
    qed
  next
    case None
    note outcome = stand_race_outcome_no_wallet [OF assms(1-11) tot None assms(12),
        of envA envB]
    let ?l0 = "\<lambda>C. \<lparr> st_userId = u, st_rid = rid, st_round = r, st_wallet = newWallet C,
                      st_total = tot, st_points = ?p \<rparr>"
    let ?wF = "\<lambda>W C. if 0 < ?p
                      then (newWallet C) \<lparr> w_balance := w_balance (newWallet C) + ?p,
                                           w_updatedAt := e_now W \<rparr>
                      else newWallet C"
    let ?sF = "\<lambda>W C. s \<lparr> gameRound := (gameRound s)(rid \<mapsto> stand_update (e_now W) r tot ?p),
                           roundLog := roundLog s @ [stand_log W (?l0 C)],
                           gameWallet := (gameWallet s)(u \<mapsto> ?wF W C) \<rparr>"
    let ?snap = "\<lambda>W C. \<lparr> g_roundId = rid, g_state = Finished, g_seed = r_seed r,
                             g_nonce = r_nonce r, g_hand = r_hand r, g_total = tot,
                             g_pointsLastRound = ?p, g_balance = w_balance (?wF W C) \<rparr>"
    have props: "?round (?sF W C) \<and> balanceOr0 (?sF W C) u = updateBalance (balanceOr0 s u) ?p
        \<and> ?log (?sF W C) \<and> ?snapped (?snap W C) (?sF W C)" for W C
      using None
      by (simp add: stand_update_fields balanceOr0_def updateBalance_def stand_log_def
          newWallet_def Let_def)
    have found: ?thesis
      if "?race = Some (Answered ra, Answered rb, ?sF W C)"
        and "ra = (200, State (?snap W C))
               \<and> (rb = (409, State (?snap W C)) \<or> rb = internalError)
             \<or> rb = (200, State (?snap W C))
               \<and> (ra = (409, State (?snap W C)) \<or> ra = internalError)" for ra rb W C
      using that tot props [of W C] None
      by (intro exI [of _ ra] exI [of _ rb] exI [of _ "?sF W C"] exI [of _ tot]
          exI [of _ soft] exI [of _ "?snap W C"]) auto
    from outcome show ?thesis
      unfolding insert_iff empty_iff
    proof (elim disjE)
      assume "?race = Some (Answered (200, State (?snap envA envA)),
                Answered (409, State (?snap envA envA)), ?sF envA envA)"
      then show ?thesis by (rule found) simp
    next
      assume "?race = Some (Answered (200, State (?snap envA envA)),
                Answered internalError, ?sF envA envA)"
      then show ?thesis by (rule found) simp
    next
      assume "?race = Some (Answered (200, State (?snap envA envB)),
                Answered (409, State (?snap envA envB)), ?sF envA envB)"
      then show ?thesis by (rule found) simp
    next
      assume "?race = Some (Answered (409, State (?snap envB envB)),
                Answered (200, State (?snap envB envB)), ?sF envB envB)"
      then show ?thesis by (rule found) simp
    next
      assume "?race = Some (Answered internalError,
                Answered (200, State (?snap envB envB)), ?sF envB envB)"
      then show ?thesis by (rule found) simp
    next
      assume "?race = Some (Answered (409, State (?snap envB envA)),
                Answered (200, State (?snap envB envA)), ?sF envB envA)"
      then show ?thesis by (rule found) simp
    next
      assume False
      then show ?thesis ..
    qed
  qed
qed


end
